theory Spec2Isabelle
  imports Complex_Main
begin

unbundle bit_operations_syntax

section \<open>QR alignment pattern finder (QRAlignmentPatternFinder.cpp)\<close>

text \<open>
  Conventions of the embedding.
  \<^item> C++ \<open>int\<close> is modelled as \<open>int\<close>: the search windows of interest are far from the
    32-bit limits, and signed overflow has no defined result in the source language.
  \<^item> C++ \<open>float\<close> is modelled as \<open>real\<close>: every finite float is a real number, the
    not-a-number sentinel returned by the vertical cross-check is the value \<open>None\<close> of an
    option, and rounding is not modelled.
  \<^item> A pixel query outside the grid is the distinguished outcome \<open>OutOfRange\<close>, which
    every caller propagates.
\<close>

subsection \<open>Pixel grid\<close>

datatype 'a access = OutOfRange | Value 'a

record BitMatrix =
  bm_width :: int
  bm_height :: int
  bm_pixel :: "int \<Rightarrow> int \<Rightarrow> bool"

text \<open>
  Modelled from the spec: \<open>BitMatrix::get\<close> (BitMatrix.h is not part of the sources).
  The grid answers \<open>isDark(x, y)\<close> for \<open>x\<close> in \<open>[0, width)\<close> and \<open>y\<close> in
  \<open>[0, height)\<close>; a query outside that domain has no answer.
\<close>

definition get :: "BitMatrix \<Rightarrow> int \<Rightarrow> int \<Rightarrow> bool access" where
  "get img x y =
     (if 0 \<le> x \<and> x < bm_width img \<and> 0 \<le> y \<and> y < bm_height img
      then Value (bm_pixel img x y) else OutOfRange)"

subsection \<open>Run-length state\<close>

text \<open>
  \<open>std::array<int, 3>\<close>. The code reads and writes it at the indices 0, 1 and 2 only.
\<close>

type_synonym StateCount = "int \<times> int \<times> int"

fun sc_at :: "StateCount \<Rightarrow> nat \<Rightarrow> int" where
  "sc_at (c0, c1, c2) i = (if i = 0 then c0 else if i = 1 then c1 else c2)"

fun sc_incr :: "StateCount \<Rightarrow> nat \<Rightarrow> StateCount" where
  "sc_incr (c0, c1, c2) i =
     (if i = 0 then (c0 + 1, c1, c2) else if i = 1 then (c0, c1 + 1, c2) else (c0, c1, c2 + 1))"

text \<open>\<open>static_cast<int>\<close> of a float: truncation towards zero.\<close>

definition trunc :: "real \<Rightarrow> int" where
  "trunc r = (if 0 \<le> r then \<lfloor>r\<rfloor> else \<lceil>r\<rceil>)"

text \<open>C++ integer division by two: truncation towards zero.\<close>

definition half :: "int \<Rightarrow> int" where
  "half n = (if 0 \<le> n then n div 2 else - ((- n) div 2))"

definition CenterFromEnd :: "StateCount \<Rightarrow> int \<Rightarrow> real" where
  "CenterFromEnd stateCount e =
     real_of_int (e - sc_at stateCount 2) - real_of_int (sc_at stateCount 1) / 2"

function FoundPatternCross_from :: "StateCount \<Rightarrow> real \<Rightarrow> real \<Rightarrow> nat \<Rightarrow> bool" where
  "FoundPatternCross_from stateCount moduleSize maxVariance i =
     (if i < 3 then
        (if \<bar>moduleSize - real_of_int (sc_at stateCount i)\<bar> \<ge> maxVariance then False
         else FoundPatternCross_from stateCount moduleSize maxVariance (i + 1))
      else True)"
  by pat_completeness auto
termination
  by (relation "measure (\<lambda>(stateCount, moduleSize, maxVariance, i). 3 - i)") auto

definition FoundPatternCross :: "StateCount \<Rightarrow> real \<Rightarrow> bool" where
  "FoundPatternCross stateCount moduleSize =
     (let maxVariance = moduleSize / 2
      in FoundPatternCross_from stateCount moduleSize maxVariance 0)"

subsection \<open>Vertical cross-check\<close>

text \<open>
  The two upward loops of \<open>CrossCheckVertical\<close> differ only in the pixel value they
  keep counting (\<open>image.get(centerJ, i)\<close> for the middle run, its negation for the
  outer run); \<open>want\<close> is that value. The loop tests \<open>i >= 0\<close> first, then reads the
  pixel, then compares the counter with \<open>maxCount\<close>.
\<close>

function count_up :: "BitMatrix \<Rightarrow> int \<Rightarrow> bool \<Rightarrow> int \<Rightarrow> int \<Rightarrow> int \<Rightarrow> (int \<times> int) access" where
  "count_up img centerJ want maxCount i c =
     (if i \<ge> 0 then
        (case get img centerJ i of
           OutOfRange \<Rightarrow> OutOfRange
         | Value b \<Rightarrow>
             if b = want \<and> c \<le> maxCount
             then count_up img centerJ want maxCount (i - 1) (c + 1)
             else Value (i, c))
      else Value (i, c))"
  by pat_completeness auto
termination
  by (relation "measure (\<lambda>(img, centerJ, want, maxCount, i, c). nat (i + 1))") auto

text \<open>The two downward loops, bounded by \<open>maxI = image.height()\<close>.\<close>

function count_down :: "BitMatrix \<Rightarrow> int \<Rightarrow> bool \<Rightarrow> int \<Rightarrow> int \<Rightarrow> int \<Rightarrow> int \<Rightarrow> (int \<times> int) access" where
  "count_down img centerJ want maxCount maxI i c =
     (if i < maxI then
        (case get img centerJ i of
           OutOfRange \<Rightarrow> OutOfRange
         | Value b \<Rightarrow>
             if b = want \<and> c \<le> maxCount
             then count_down img centerJ want maxCount maxI (i + 1) (c + 1)
             else Value (i, c))
      else Value (i, c))"
  by pat_completeness auto
termination
  by (relation "measure (\<lambda>(img, centerJ, want, maxCount, maxI, i, c). nat (maxI - i))") auto

text \<open>The result \<open>None\<close> stands for the not-a-number return value.\<close>

definition CrossCheckVertical ::
  "BitMatrix \<Rightarrow> int \<Rightarrow> int \<Rightarrow> int \<Rightarrow> int \<Rightarrow> real \<Rightarrow> real option access" where
  "CrossCheckVertical img startI centerJ maxCount originalStateCountTotal moduleSize =
     (let maxI = bm_height img in
      case count_up img centerJ True maxCount startI 0 of
        OutOfRange \<Rightarrow> OutOfRange
      | Value (i1, m1) \<Rightarrow>
          if i1 < 0 \<or> m1 > maxCount then Value None
          else
            (case count_up img centerJ False maxCount i1 0 of
               OutOfRange \<Rightarrow> OutOfRange
             | Value (i0, c0) \<Rightarrow>
                 if c0 > maxCount then Value None
                 else
                   (case count_down img centerJ True maxCount maxI (startI + 1) m1 of
                      OutOfRange \<Rightarrow> OutOfRange
                    | Value (i2, c1) \<Rightarrow>
                        if i2 = maxI \<or> c1 > maxCount then Value None
                        else
                          (case count_down img centerJ False maxCount maxI i2 0 of
                             OutOfRange \<Rightarrow> OutOfRange
                           | Value (i3, c2) \<Rightarrow>
                               if c2 > maxCount then Value None
                               else
                                 (let stateCountTotal = c0 + c1 + c2 in
                                  if 5 * \<bar>stateCountTotal - originalStateCountTotal\<bar>
                                       \<ge> 2 * originalStateCountTotal
                                  then Value None
                                  else if FoundPatternCross (c0, c1, c2) moduleSize
                                  then Value (Some (CenterFromEnd (c0, c1, c2) i3))
                                  else Value None)))))"

subsection \<open>Candidates\<close>

text \<open>
  Modelled from the spec: the class \<open>AlignmentPattern\<close> (QRAlignmentPattern.h is not part
  of the sources), the candidate of the specification's data model.
\<close>

record AlignmentPattern =
  centerX :: real
  centerY :: real
  estimatedSize :: real
  observationCount :: int

text \<open>
  Modelled from the spec: the constructor \<open>AlignmentPattern(posX, posY, moduleSize)\<close>,
  a fresh candidate with one observation.
\<close>

definition newAlignmentPattern :: "real \<Rightarrow> real \<Rightarrow> real \<Rightarrow> AlignmentPattern" where
  "newAlignmentPattern posX posY moduleSize =
     \<lparr>centerX = posX, centerY = posY, estimatedSize = moduleSize, observationCount = 1\<rparr>"

text \<open>
  Modelled from the spec: \<open>AlignmentPattern::aboutEquals(moduleSize, i, j)\<close>, the
  proximity predicate. The receiver is the stored candidate, whose module size scales the
  position tolerances; the arguments are the new observation's module size, row and column.
\<close>

definition aboutEquals :: "AlignmentPattern \<Rightarrow> real \<Rightarrow> real \<Rightarrow> real \<Rightarrow> bool" where
  "aboutEquals center moduleSize i j =
     (\<bar>estimatedSize center - moduleSize\<bar> \<le> 1
      \<and> \<bar>centerY center - i\<bar> \<le> estimatedSize center
      \<and> \<bar>centerX center - j\<bar> \<le> estimatedSize center)"

text \<open>
  Modelled from the spec: \<open>AlignmentPattern::combineEstimate(i, j, newModuleSize)\<close>,
  the arithmetic mean of the stored candidate and the new observation, with the
  observation count incremented.
\<close>

definition combineEstimate :: "AlignmentPattern \<Rightarrow> real \<Rightarrow> real \<Rightarrow> real \<Rightarrow> AlignmentPattern" where
  "combineEstimate center i j newModuleSize =
     \<lparr>centerX = (centerX center + j) / 2,
      centerY = (centerY center + i) / 2,
      estimatedSize = (estimatedSize center + newModuleSize) / 2,
      observationCount = observationCount center + 1\<rparr>"

subsection \<open>Candidate aggregation\<close>

text \<open>
  \<open>Confirmed c\<close>: the function returned \<open>true\<close> and stored \<open>c\<close> in its output
  parameter. \<open>Unconfirmed s\<close>: it returned \<open>false\<close>, and \<open>s\<close> is the state it left.
\<close>

datatype 'a flow = Confirmed AlignmentPattern | Unconfirmed 'a

text \<open>The range-for over \<open>possibleCenters\<close>: the first stored centre that matches wins.\<close>

fun first_match :: "AlignmentPattern list \<Rightarrow> real \<Rightarrow> real \<Rightarrow> real \<Rightarrow> AlignmentPattern option" where
  "first_match [] estimatedModuleSize centerI centerJ = None"
| "first_match (center # rest) estimatedModuleSize centerI centerJ =
     (if aboutEquals center estimatedModuleSize centerI centerJ
      then Some (combineEstimate center centerI centerJ estimatedModuleSize)
      else first_match rest estimatedModuleSize centerI centerJ)"

definition HandlePossibleCenter ::
  "BitMatrix \<Rightarrow> StateCount \<Rightarrow> int \<Rightarrow> int \<Rightarrow> real \<Rightarrow> AlignmentPattern list
     \<Rightarrow> AlignmentPattern list flow access" where
  "HandlePossibleCenter img stateCount i j moduleSize possibleCenters =
     (let stateCountTotal = sc_at stateCount 0 + sc_at stateCount 1 + sc_at stateCount 2;
          centerJ = CenterFromEnd stateCount j
      in case CrossCheckVertical img i (trunc centerJ) (2 * sc_at stateCount 1)
                stateCountTotal moduleSize of
           OutOfRange \<Rightarrow> OutOfRange
         | Value None \<Rightarrow> Value (Unconfirmed possibleCenters)
         | Value (Some centerI) \<Rightarrow>
             (let estimatedModuleSize =
                    real_of_int (sc_at stateCount 0 + sc_at stateCount 1 + sc_at stateCount 2) / 3
              in case first_match possibleCenters estimatedModuleSize centerI centerJ of
                   Some confirm \<Rightarrow> Value (Confirmed confirm)
                 | None \<Rightarrow>
                     Value (Unconfirmed (possibleCenters @
                       [newAlignmentPattern centerJ centerI estimatedModuleSize]))))"

subsection \<open>Horizontal scan and row order\<close>

text \<open>Skipping the leading white pixels of a row.\<close>

function burn_off :: "BitMatrix \<Rightarrow> int \<Rightarrow> int \<Rightarrow> int \<Rightarrow> int access" where
  "burn_off img i maxJ j =
     (if j < maxJ then
        (case get img j i of
           OutOfRange \<Rightarrow> OutOfRange
         | Value b \<Rightarrow> if \<not> b then burn_off img i maxJ (j + 1) else Value j)
      else Value j)"
  by pat_completeness auto
termination
  by (relation "measure (\<lambda>(img, i, maxJ, j). nat (maxJ - j))") auto

text \<open>
  The loop \<open>while (j < maxJ)\<close> over the columns of row \<open>i\<close>. The state is the column
  \<open>j\<close>, \<open>currentState\<close>, the three counters and the candidate list. It ends either with
  a confirmed pattern (the \<open>return\<close> inside the loop) or at \<open>maxJ\<close> with the counters
  and the list as they stand.
\<close>

function scan_columns ::
  "BitMatrix \<Rightarrow> int \<Rightarrow> int \<Rightarrow> real \<Rightarrow> int \<Rightarrow> nat \<Rightarrow> StateCount \<Rightarrow> AlignmentPattern list
     \<Rightarrow> (StateCount \<times> AlignmentPattern list) flow access" where
  "scan_columns img i maxJ moduleSize j currentState stateCount possibleCenters =
     (if j < maxJ then
        (case get img j i of
           OutOfRange \<Rightarrow> OutOfRange
         | Value True \<Rightarrow>
             if currentState = 1
             then scan_columns img i maxJ moduleSize (j + 1) currentState
                    (sc_incr stateCount 1) possibleCenters
             else if currentState = 2
             then
               (if FoundPatternCross stateCount moduleSize
                then
                  (case HandlePossibleCenter img stateCount i j moduleSize possibleCenters of
                     OutOfRange \<Rightarrow> OutOfRange
                   | Value (Confirmed confirm) \<Rightarrow> Value (Confirmed confirm)
                   | Value (Unconfirmed centers) \<Rightarrow>
                       scan_columns img i maxJ moduleSize (j + 1) 1
                         (sc_at stateCount 2, 1, 0) centers)
                else scan_columns img i maxJ moduleSize (j + 1) 1
                       (sc_at stateCount 2, 1, 0) possibleCenters)
             else scan_columns img i maxJ moduleSize (j + 1) (currentState + 1)
                    (sc_incr stateCount (currentState + 1)) possibleCenters
         | Value False \<Rightarrow>
             (let s = (if currentState = 1 then currentState + 1 else currentState)
              in scan_columns img i maxJ moduleSize (j + 1) s (sc_incr stateCount s)
                   possibleCenters))
      else Value (Unconfirmed (stateCount, possibleCenters)))"
  by pat_completeness auto
termination
  by (relation "measure (\<lambda>(img, i, maxJ, moduleSize, j, currentState, stateCount, possibleCenters).
        nat (maxJ - j))") auto

text \<open>One iteration of the \<open>for\<close> loop of \<open>Find\<close>, for the row \<open>i\<close>.\<close>

definition scan_row ::
  "BitMatrix \<Rightarrow> int \<Rightarrow> int \<Rightarrow> real \<Rightarrow> int \<Rightarrow> AlignmentPattern list
     \<Rightarrow> AlignmentPattern list flow access" where
  "scan_row img startX maxJ moduleSize i possibleCenters =
     (case burn_off img i maxJ startX of
        OutOfRange \<Rightarrow> OutOfRange
      | Value j \<Rightarrow>
          (case scan_columns img i maxJ moduleSize j 0 (0, 0, 0) possibleCenters of
             OutOfRange \<Rightarrow> OutOfRange
           | Value (Confirmed confirm) \<Rightarrow> Value (Confirmed confirm)
           | Value (Unconfirmed (stateCount, centers)) \<Rightarrow>
               if FoundPatternCross stateCount moduleSize
               then HandlePossibleCenter img stateCount i maxJ moduleSize centers
               else Value (Unconfirmed centers)))"

text \<open>The row visited by generation \<open>iGen\<close>.\<close>

definition row_of :: "int \<Rightarrow> int \<Rightarrow> int" where
  "row_of middleI iGen =
     middleI + (if iGen AND 1 = 0 then (iGen + 1) div 2 else - ((iGen + 1) div 2))"

function find_rows ::
  "BitMatrix \<Rightarrow> int \<Rightarrow> int \<Rightarrow> int \<Rightarrow> int \<Rightarrow> real \<Rightarrow> int \<Rightarrow> AlignmentPattern list
     \<Rightarrow> AlignmentPattern list flow access" where
  "find_rows img startX maxJ middleI height moduleSize iGen possibleCenters =
     (if iGen < height then
        (case scan_row img startX maxJ moduleSize (row_of middleI iGen) possibleCenters of
           OutOfRange \<Rightarrow> OutOfRange
         | Value (Confirmed confirm) \<Rightarrow> Value (Confirmed confirm)
         | Value (Unconfirmed centers) \<Rightarrow>
             find_rows img startX maxJ middleI height moduleSize (iGen + 1) centers)
      else Value (Unconfirmed possibleCenters))"
  by pat_completeness auto
termination
  by (relation "measure (\<lambda>(img, startX, maxJ, middleI, height, moduleSize, iGen, possibleCenters).
        nat (height - iGen))") auto

datatype DecodeStatus = NoError AlignmentPattern | NotFound

definition Find ::
  "BitMatrix \<Rightarrow> int \<Rightarrow> int \<Rightarrow> int \<Rightarrow> int \<Rightarrow> real \<Rightarrow> DecodeStatus access" where
  "Find img startX startY width height moduleSize =
     (let maxJ = startX + width;
          middleI = startY + half height
      in case find_rows img startX maxJ middleI height moduleSize 0 [] of
           OutOfRange \<Rightarrow> OutOfRange
         | Value (Confirmed confirm) \<Rightarrow> Value (NoError confirm)
         | Value (Unconfirmed possibleCenters) \<Rightarrow>
             (case possibleCenters of
                [] \<Rightarrow> Value NotFound
              | front # rest \<Rightarrow> Value (NoError front)))"

subsection \<open>Auxiliary notions\<close>

text \<open>
  What one iteration of the column loop does to \<open>currentState\<close> and the counters for a
  pixel of value \<open>b\<close>, leaving aside the call of \<open>HandlePossibleCenter\<close>.
\<close>

definition advance :: "bool \<Rightarrow> nat \<Rightarrow> StateCount \<Rightarrow> nat \<times> StateCount" where
  "advance b currentState stateCount =
     (if b then
        (if currentState = 1 then (currentState, sc_incr stateCount 1)
         else if currentState = 2 then (1, (sc_at stateCount 2, 1, 0))
         else (currentState + 1, sc_incr stateCount (currentState + 1)))
      else
        (let s = (if currentState = 1 then currentState + 1 else currentState)
         in (s, sc_incr stateCount s)))"

text \<open>
  The row order in the words of the specification: generation \<open>g\<close> visits
  \<open>middleRow + (g+1)/2\<close> when \<open>g\<close> is even and \<open>middleRow - (g+1)/2\<close> when it is odd,
  for \<open>g\<close> from 0 to \<open>windowHeight - 1\<close>, where \<open>middleRow = windowY + windowHeight/2\<close>.
\<close>

definition zigzag :: "int \<Rightarrow> nat \<Rightarrow> int" where
  "zigzag middleRow g =
     (if even g then middleRow + (int g + 1) div 2 else middleRow - (int g + 1) div 2)"

definition spec_row_order :: "int \<Rightarrow> int \<Rightarrow> int list" where
  "spec_row_order windowY windowHeight =
     map (zigzag (windowY + windowHeight div 2)) [0..<nat windowHeight]"

text \<open>Scanning a given list of rows in order, stopping at the first confirmation.\<close>

fun visit_rows ::
  "BitMatrix \<Rightarrow> int \<Rightarrow> int \<Rightarrow> real \<Rightarrow> int list \<Rightarrow> AlignmentPattern list
     \<Rightarrow> AlignmentPattern list flow access" where
  "visit_rows img startX maxJ moduleSize [] possibleCenters = Value (Unconfirmed possibleCenters)"
| "visit_rows img startX maxJ moduleSize (i # rows) possibleCenters =
     (case scan_row img startX maxJ moduleSize i possibleCenters of
        OutOfRange \<Rightarrow> OutOfRange
      | Value (Confirmed confirm) \<Rightarrow> Value (Confirmed confirm)
      | Value (Unconfirmed centers) \<Rightarrow> visit_rows img startX maxJ moduleSize rows centers)"

text \<open>
  The proximity predicate between two stored candidates: the first one is the receiver of
  \<open>aboutEquals\<close>, the second one supplies the arguments.
\<close>

definition matches :: "AlignmentPattern \<Rightarrow> AlignmentPattern \<Rightarrow> bool" where
  "matches center other =
     aboutEquals center (estimatedSize other) (centerY other) (centerX other)"

text \<open>No stored candidate matches a candidate stored after it.\<close>

definition unmatched :: "AlignmentPattern list \<Rightarrow> bool" where
  "unmatched centers = sorted_wrt (\<lambda>center other. \<not> matches center other) centers"

text \<open>The search window lies within the grid.\<close>

definition window_in_grid :: "BitMatrix \<Rightarrow> int \<Rightarrow> int \<Rightarrow> int \<Rightarrow> int \<Rightarrow> bool" where
  "window_in_grid img startX startY width height \<longleftrightarrow>
     0 \<le> startX \<and> startX + width \<le> bm_width img
     \<and> 0 \<le> startY \<and> startY + height \<le> bm_height img"

subsection \<open>Observations in scan order\<close>

text \<open>
  The part of \<open>HandlePossibleCenter\<close> that does not look at the candidate list: the
  vertical cross-check of a triple, and the candidate it would record.
\<close>

definition observe ::
  "BitMatrix \<Rightarrow> StateCount \<Rightarrow> int \<Rightarrow> int \<Rightarrow> real \<Rightarrow> AlignmentPattern option access" where
  "observe img stateCount i j moduleSize =
     (let stateCountTotal = sc_at stateCount 0 + sc_at stateCount 1 + sc_at stateCount 2;
          centerJ = CenterFromEnd stateCount j
      in case CrossCheckVertical img i (trunc centerJ) (2 * sc_at stateCount 1)
                stateCountTotal moduleSize of
           OutOfRange \<Rightarrow> OutOfRange
         | Value None \<Rightarrow> Value None
         | Value (Some centerI) \<Rightarrow>
             Value (Some (newAlignmentPattern centerJ centerI
               (real_of_int stateCountTotal / 3))))"

text \<open>
  The candidate aggregator in the words of the specification: a new observation that a
  stored candidate matches is confirmed with the combined values, any other is appended.
\<close>

definition tryConfirm :: "AlignmentPattern \<Rightarrow> AlignmentPattern list \<Rightarrow> AlignmentPattern list flow" where
  "tryConfirm new candidates =
     (case first_match candidates (estimatedSize new) (centerY new) (centerX new) of
        Some confirm \<Rightarrow> Confirmed confirm
      | None \<Rightarrow> Unconfirmed (candidates @ [new]))"

text \<open>Feeding observations to the aggregator in order, up to the first confirmation.\<close>

fun aggregate :: "AlignmentPattern list \<Rightarrow> AlignmentPattern list \<Rightarrow> AlignmentPattern list flow" where
  "aggregate [] candidates = Unconfirmed candidates"
| "aggregate (new # rest) candidates =
     (case tryConfirm new candidates of
        Confirmed confirm \<Rightarrow> Confirmed confirm
      | Unconfirmed centers \<Rightarrow> aggregate rest centers)"

text \<open>
  The observations of the column loop of row \<open>i\<close>, in the order the loop makes them,
  whatever the aggregator does with them. The loop is the one of \<open>scan_columns\<close> without
  the candidate list. The second component is the final counters, or \<open>None\<close> when a pixel
  query left the grid; the observations are then those made before that query.
\<close>

function column_trace ::
  "BitMatrix \<Rightarrow> int \<Rightarrow> int \<Rightarrow> real \<Rightarrow> int \<Rightarrow> nat \<Rightarrow> StateCount
     \<Rightarrow> AlignmentPattern list \<times> StateCount option" where
  "column_trace img i maxJ moduleSize j currentState stateCount =
     (if j < maxJ then
        (case get img j i of
           OutOfRange \<Rightarrow> ([], None)
         | Value b \<Rightarrow>
             if b \<and> currentState = 2 \<and> FoundPatternCross stateCount moduleSize
             then
               (case observe img stateCount i j moduleSize of
                  OutOfRange \<Rightarrow> ([], None)
                | Value None \<Rightarrow>
                    column_trace img i maxJ moduleSize (j + 1)
                      (fst (advance b currentState stateCount))
                      (snd (advance b currentState stateCount))
                | Value (Some new) \<Rightarrow>
                    (case column_trace img i maxJ moduleSize (j + 1)
                            (fst (advance b currentState stateCount))
                            (snd (advance b currentState stateCount)) of
                       (later, final) \<Rightarrow> (new # later, final)))
             else column_trace img i maxJ moduleSize (j + 1)
                    (fst (advance b currentState stateCount))
                    (snd (advance b currentState stateCount)))
      else ([], Some stateCount))"
  by pat_completeness auto
termination
  by (relation "measure (\<lambda>(img, i, maxJ, moduleSize, j, currentState, stateCount).
        nat (maxJ - j))") auto

text \<open>
  The observations of one row, the check at the row end included, and whether the row was
  scanned to its end with every query inside the grid.
\<close>

definition row_trace ::
  "BitMatrix \<Rightarrow> int \<Rightarrow> int \<Rightarrow> real \<Rightarrow> int \<Rightarrow> AlignmentPattern list \<times> bool" where
  "row_trace img startX maxJ moduleSize i =
     (case burn_off img i maxJ startX of
        OutOfRange \<Rightarrow> ([], False)
      | Value j \<Rightarrow>
          (case column_trace img i maxJ moduleSize j 0 (0, 0, 0) of
             (seen, None) \<Rightarrow> (seen, False)
           | (seen, Some stateCount) \<Rightarrow>
               if FoundPatternCross stateCount moduleSize
               then
                 (case observe img stateCount i maxJ moduleSize of
                    OutOfRange \<Rightarrow> (seen, False)
                  | Value None \<Rightarrow> (seen, True)
                  | Value (Some new) \<Rightarrow> (seen @ [new], True))
               else (seen, True)))"

text \<open>The observations of a list of rows scanned in order, up to the first query off grid.\<close>

fun rows_trace ::
  "BitMatrix \<Rightarrow> int \<Rightarrow> int \<Rightarrow> real \<Rightarrow> int list \<Rightarrow> AlignmentPattern list \<times> bool" where
  "rows_trace img startX maxJ moduleSize [] = ([], True)"
| "rows_trace img startX maxJ moduleSize (i # rows) =
     (case row_trace img startX maxJ moduleSize i of
        (seen, False) \<Rightarrow> (seen, False)
      | (seen, True) \<Rightarrow>
          (case rows_trace img startX maxJ moduleSize rows of
             (later, completed) \<Rightarrow> (seen @ later, completed)))"

text \<open>
  All observations a search over the window would make if no confirmation stopped it, in
  the zig-zag row order, and whether all of its pixel queries are inside the grid.
\<close>

definition Find_trace ::
  "BitMatrix \<Rightarrow> int \<Rightarrow> int \<Rightarrow> int \<Rightarrow> int \<Rightarrow> real \<Rightarrow> AlignmentPattern list \<times> bool" where
  "Find_trace img startX startY width height moduleSize =
     rows_trace img startX (startX + width) moduleSize (spec_row_order startY height)"

subsection \<open>Concrete grids\<close>

text \<open>A single column of three pixels: light, dark, light.\<close>

definition grid_ldl :: BitMatrix where
  "grid_ldl = \<lparr>bm_width = 1, bm_height = 3, bm_pixel = (\<lambda>x y. y = 1)\<rparr>"



text \<open>A single light pixel.\<close>

definition grid_one :: BitMatrix where
  "grid_one = \<lparr>bm_width = 1, bm_height = 1, bm_pixel = (\<lambda>x y. False)\<rparr>"

text \<open>
  Four by four: column 0 is dark, and column 2 is dark in rows 1 and 2. Rows 1 and 2 read
  dark, light, dark, light; column 2 reads light, dark, dark, light.
\<close>

definition grid_bar :: BitMatrix where
  "grid_bar = \<lparr>bm_width = 4, bm_height = 4,
                bm_pixel = (\<lambda>x y. x = 0 \<or> (x = 2 \<and> 1 \<le> y \<and> y \<le> 2))\<rparr>"

text \<open>
  Six by four, with two pattern-like structures close to each other:
  row 1 reads \<open>#..##.\<close>, row 2 reads \<open>#.#..#\<close>, row 3 reads \<open>#.....\<close>, row 0 is light.
\<close>

definition grid_two :: BitMatrix where
  "grid_two = \<lparr>bm_width = 6, bm_height = 4,
                bm_pixel = (\<lambda>x y. (x = 0 \<and> 1 \<le> y) \<or> (y = 1 \<and> (x = 3 \<or> x = 4))
                                 \<or> (y = 2 \<and> (x = 2 \<or> x = 5)))\<rparr>"

text \<open>
  Six by five. The rows read \<open>#..#..\<close>, \<open>###..#\<close>, \<open>#.#.#.\<close>, \<open>##.#..\<close> and
  \<open>#.#.##\<close>, from row 0 to row 4.
\<close>

definition grid_three :: BitMatrix where
  "grid_three = \<lparr>bm_width = 6, bm_height = 5,
     bm_pixel = (\<lambda>x y. (x, y) \<in> set
       [(0, 0), (3, 0),
        (0, 1), (1, 1), (2, 1), (5, 1),
        (0, 2), (2, 2), (4, 2),
        (0, 3), (1, 3), (3, 3),
        (0, 4), (2, 4), (4, 4), (5, 4)])\<rparr>"

text \<open>The loops are unfolded one iteration at a time, by hand.\<close>

declare FoundPatternCross_from.simps [simp del]
declare count_up.simps [simp del]
declare count_down.simps [simp del]
declare burn_off.simps [simp del]
declare scan_columns.simps [simp del]
declare find_rows.simps [simp del]
declare column_trace.simps [simp del]

section \<open>Pattern cross validator\<close>

lemma FoundPatternCross_unfold:
  "FoundPatternCross (c0, c1, c2) moduleSize \<longleftrightarrow>
     \<bar>moduleSize - real_of_int c0\<bar> < moduleSize / 2
     \<and> \<bar>moduleSize - real_of_int c1\<bar> < moduleSize / 2
     \<and> \<bar>moduleSize - real_of_int c2\<bar> < moduleSize / 2"
  unfolding FoundPatternCross_def Let_def
  by (subst FoundPatternCross_from.simps, subst FoundPatternCross_from.simps,
      subst FoundPatternCross_from.simps, subst FoundPatternCross_from.simps)
     (auto simp: not_le)

lemma all_less_three: "(\<forall>i<(3::nat). P i) \<longleftrightarrow> P 0 \<and> P 1 \<and> P 2"
proof -
  have "\<And>i::nat. i < 3 \<longleftrightarrow> i = 0 \<or> i = 1 \<or> i = 2" by auto
  then show ?thesis by auto
qed

text \<open>
  Claim C7. \<open>FoundPatternCross\<close> accepts a triple of counts exactly when every count
  differs from the module size by less than half the module size. With module size 10 the
  triples (10,10,10) and (8,11,8) are accepted and (10,20,10) is rejected.
\<close>

theorem FoundPatternCross_spec:
  "(FoundPatternCross stateCount moduleSize \<longleftrightarrow>
      (\<forall>i<3. \<bar>moduleSize - real_of_int (sc_at stateCount i)\<bar> < moduleSize / 2))
   \<and> FoundPatternCross (10, 10, 10) 10
   \<and> FoundPatternCross (8, 11, 8) 10
   \<and> \<not> FoundPatternCross (10, 20, 10) 10"
proof -
  obtain c0 c1 c2 where sc: "stateCount = (c0, c1, c2)" by (cases stateCount) auto
  have "FoundPatternCross stateCount moduleSize \<longleftrightarrow>
      (\<forall>i<3. \<bar>moduleSize - real_of_int (sc_at stateCount i)\<bar> < moduleSize / 2)"
    unfolding sc FoundPatternCross_unfold all_less_three by simp
  moreover have "FoundPatternCross (10, 10, 10) 10" "FoundPatternCross (8, 11, 8) 10"
    "\<not> FoundPatternCross (10, 20, 10) 10"
    by (simp_all add: FoundPatternCross_unfold)
  ultimately show ?thesis by blast
qed

theorem FoundPatternCross_spec_witness:
  "FoundPatternCross (8, 11, 8) 10 \<and> \<bar>10 - real_of_int (sc_at (8, 11, 8) 1)\<bar> < (10::real) / 2"
proof -
  have a: "FoundPatternCross (8, 11, 8) 10"
    using FoundPatternCross_spec [of "(8, 11, 8)" 10] by blast
  then have "\<forall>i<3. \<bar>10 - real_of_int (sc_at (8, 11, 8) i)\<bar> < (10::real) / 2"
    using FoundPatternCross_spec [of "(8, 11, 8)" 10] by blast
  then have "\<bar>10 - real_of_int (sc_at (8, 11, 8) 1)\<bar> < (10::real) / 2"
    by (simp add: all_less_three)
  with a show ?thesis by blast
qed

section \<open>Vertical cross-check: the counting loops\<close>


lemma count_up_run:
  "count_up img centerJ want maxCount i c = Value (i', c') \<Longrightarrow>
     i' \<le> i \<and> c' = c + (i - i') \<and> (- 1 \<le> i \<longrightarrow> - 1 \<le> i')
     \<and> (\<forall>r. i' < r \<and> r \<le> i \<longrightarrow> get img centerJ r = Value want)"
proof (induction img centerJ want maxCount i c rule: count_up.induct)
  case (1 img centerJ want maxCount i c)
  show ?case
  proof (cases "i \<ge> 0")
    case False
    with "1.prems" show ?thesis
      by (auto simp: count_up.simps [of img centerJ want maxCount i c])
  next
    case True
    note nonneg = this
    from "1.prems" obtain b where b: "get img centerJ i = Value b"
      by (subst (asm) count_up.simps) (auto simp: nonneg split: access.splits)
    show ?thesis
    proof (cases "b = want \<and> c \<le> maxCount")
      case False
      with "1.prems" b nonneg show ?thesis
        by (subst (asm) count_up.simps) auto
    next
      case True
      with "1.prems" b nonneg
      have rec: "count_up img centerJ want maxCount (i - 1) (c + 1) = Value (i', c')"
        by (subst (asm) count_up.simps) auto
      from "1.IH" [OF nonneg b True rec]
      have ih: "i' \<le> i - 1" "c' = c + 1 + (i - 1 - i')" "- 1 \<le> i'"
        "\<forall>r. i' < r \<and> r \<le> i - 1 \<longrightarrow> get img centerJ r = Value want"
        using nonneg by auto
      have "\<forall>r. i' < r \<and> r \<le> i \<longrightarrow> get img centerJ r = Value want"
      proof (intro allI impI)
        fix r assume "i' < r \<and> r \<le> i"
        then have "r \<le> i - 1 \<or> r = i" by auto
        then show "get img centerJ r = Value want"
          using ih(4) \<open>i' < r \<and> r \<le> i\<close> b True by auto
      qed
      with ih show ?thesis by auto
    qed
  qed
qed


lemma count_up_no_fault:
  "0 \<le> centerJ \<Longrightarrow> centerJ < bm_width img \<Longrightarrow> i < bm_height img \<Longrightarrow>
     count_up img centerJ want maxCount i c \<noteq> OutOfRange"
proof (induction img centerJ want maxCount i c rule: count_up.induct)
  case (1 img centerJ want maxCount i c)
  show ?case
  proof (cases "i \<ge> 0")
    case False
    then show ?thesis
      by (simp add: count_up.simps [of img centerJ want maxCount i c])
  next
    case True
    then have b: "get img centerJ i = Value (bm_pixel img centerJ i)"
      using "1.prems" by (simp add: get_def)
    show ?thesis
    proof (cases "bm_pixel img centerJ i = want \<and> c \<le> maxCount")
      case False
      with b True show ?thesis
        by (subst count_up.simps) auto
    next
      case t: True
      have "count_up img centerJ want maxCount (i - 1) (c + 1) \<noteq> OutOfRange"
        using "1.IH" [OF True b t] "1.prems" by simp
      with b True t show ?thesis
        by (subst count_up.simps) auto
    qed
  qed
qed

lemma count_down_run:
  "count_down img centerJ want maxCount maxI i c = Value (i', c') \<Longrightarrow>
     i \<le> i' \<and> c' = c + (i' - i) \<and> (i \<le> maxI \<longrightarrow> i' \<le> maxI)
     \<and> (\<forall>r. i \<le> r \<and> r < i' \<longrightarrow> get img centerJ r = Value want)"
proof (induction img centerJ want maxCount maxI i c rule: count_down.induct)
  case (1 img centerJ want maxCount maxI i c)
  show ?case
  proof (cases "i < maxI")
    case False
    with "1.prems" show ?thesis
      by (auto simp: count_down.simps [of img centerJ want maxCount maxI i c])
  next
    case True
    note below = this
    from "1.prems" obtain b where b: "get img centerJ i = Value b"
      by (subst (asm) count_down.simps) (auto simp: below split: access.splits)
    show ?thesis
    proof (cases "b = want \<and> c \<le> maxCount")
      case False
      with "1.prems" b below show ?thesis
        by (subst (asm) count_down.simps) auto
    next
      case True
      with "1.prems" b below
      have rec: "count_down img centerJ want maxCount maxI (i + 1) (c + 1) = Value (i', c')"
        by (subst (asm) count_down.simps) auto
      from "1.IH" [OF below b True rec]
      have ih: "i + 1 \<le> i'" "c' = c + 1 + (i' - (i + 1))" "i' \<le> maxI"
        "\<forall>r. i + 1 \<le> r \<and> r < i' \<longrightarrow> get img centerJ r = Value want"
        using below by auto
      have "\<forall>r. i \<le> r \<and> r < i' \<longrightarrow> get img centerJ r = Value want"
      proof (intro allI impI)
        fix r assume "i \<le> r \<and> r < i'"
        then have "i + 1 \<le> r \<or> r = i" by auto
        then show "get img centerJ r = Value want"
          using ih(4) \<open>i \<le> r \<and> r < i'\<close> b True by auto
      qed
      with ih show ?thesis by auto
    qed
  qed
qed


lemma count_down_no_fault:
  "0 \<le> centerJ \<Longrightarrow> centerJ < bm_width img \<Longrightarrow> 0 \<le> i \<Longrightarrow> maxI \<le> bm_height img \<Longrightarrow>
     count_down img centerJ want maxCount maxI i c \<noteq> OutOfRange"
proof (induction img centerJ want maxCount maxI i c rule: count_down.induct)
  case (1 img centerJ want maxCount maxI i c)
  show ?case
  proof (cases "i < maxI")
    case False
    then show ?thesis
      by (simp add: count_down.simps [of img centerJ want maxCount maxI i c])
  next
    case True
    then have b: "get img centerJ i = Value (bm_pixel img centerJ i)"
      using "1.prems" by (simp add: get_def)
    show ?thesis
    proof (cases "bm_pixel img centerJ i = want \<and> c \<le> maxCount")
      case False
      with b True show ?thesis
        by (subst count_down.simps) auto
    next
      case t: True
      have "count_down img centerJ want maxCount maxI (i + 1) (c + 1) \<noteq> OutOfRange"
        using "1.IH" [OF True b t] "1.prems" by simp
      with b True t show ?thesis
        by (subst count_down.simps) auto
    qed
  qed
qed



section \<open>Vertical cross-check: the result\<close>

text \<open>
  The four loops in sequence. The hypotheses name the position and counter each loop
  ends with; the conclusion is the value \<open>CrossCheckVertical\<close> returns.
\<close>

lemma CrossCheckVertical_trace:
  assumes "count_up img centerJ True maxCount startI 0 = Value (i1, m1)"
    and "count_up img centerJ False maxCount i1 0 = Value (i0, c0)"
    and "count_down img centerJ True maxCount (bm_height img) (startI + 1) m1 = Value (i2, c1)"
    and "count_down img centerJ False maxCount (bm_height img) i2 0 = Value (i3, c2)"
  shows "CrossCheckVertical img startI centerJ maxCount originalStateCountTotal moduleSize =
     (if i1 < 0 \<or> m1 > maxCount \<or> c0 > maxCount \<or> i2 = bm_height img \<or> c1 > maxCount
         \<or> c2 > maxCount
      then Value None
      else if 5 * \<bar>c0 + c1 + c2 - originalStateCountTotal\<bar> \<ge> 2 * originalStateCountTotal
      then Value None
      else if FoundPatternCross (c0, c1, c2) moduleSize
      then Value (Some (CenterFromEnd (c0, c1, c2) i3))
      else Value None)"
  using assms by (simp add: CrossCheckVertical_def Let_def)


lemma FoundPatternCross_pos:
  assumes "FoundPatternCross (c0, c1, c2) moduleSize"
  shows "0 < moduleSize" "1 \<le> c0" "1 \<le> c1" "1 \<le> c2"
proof -
  have b: "\<bar>moduleSize - real_of_int c0\<bar> < moduleSize / 2"
    "\<bar>moduleSize - real_of_int c1\<bar> < moduleSize / 2"
    "\<bar>moduleSize - real_of_int c2\<bar> < moduleSize / 2"
    using assms by (simp_all add: FoundPatternCross_unfold)
  from b(1) show pos: "0 < moduleSize" by linarith
  have "0 < real_of_int c0" using b(1) pos by linarith
  then show "1 \<le> c0" by simp
  have "0 < real_of_int c1" using b(2) pos by linarith
  then show "1 \<le> c1" by simp
  have "0 < real_of_int c2" using b(3) pos by linarith
  then show "1 \<le> c2" by simp
qed

lemma CrossCheckVertical_no_fault:
  assumes "0 \<le> centerJ" "centerJ < bm_width img" "- 1 \<le> startI" "startI < bm_height img"
  shows "CrossCheckVertical img startI centerJ maxCount originalStateCountTotal moduleSize
           \<noteq> OutOfRange"
proof -
  obtain i1 m1 where up1: "count_up img centerJ True maxCount startI 0 = Value (i1, m1)"
    using count_up_no_fault [OF assms(1,2,4), of True maxCount 0]
    by (cases "count_up img centerJ True maxCount startI 0") auto
  from count_up_run [OF up1] assms have "i1 < bm_height img" by simp
  then obtain i0 c0 where up2: "count_up img centerJ False maxCount i1 0 = Value (i0, c0)"
    using count_up_no_fault [OF assms(1,2), of i1 False maxCount 0]
    by (cases "count_up img centerJ False maxCount i1 0") auto
  obtain i2 c1 where dn1:
    "count_down img centerJ True maxCount (bm_height img) (startI + 1) m1 = Value (i2, c1)"
    using count_down_no_fault [OF assms(1,2), of "startI + 1" "bm_height img" True maxCount m1]
      assms(3)
    by (cases "count_down img centerJ True maxCount (bm_height img) (startI + 1) m1") auto
  from count_down_run [OF dn1] assms have "0 \<le> i2" by simp
  then obtain i3 c2 where dn2:
    "count_down img centerJ False maxCount (bm_height img) i2 0 = Value (i3, c2)"
    using count_down_no_fault [OF assms(1,2), of i2 "bm_height img" False maxCount 0]
    by (cases "count_down img centerJ False maxCount (bm_height img) i2 0") auto
  show ?thesis
    by (simp add: CrossCheckVertical_trace [OF up1 up2 dn1 dn2])
qed




lemmas grid_eval = get_def count_up.simps count_down.simps CrossCheckVertical_def
  FoundPatternCross_unfold CenterFromEnd_def

section \<open>Claims about the vertical cross-check\<close>




text \<open>
  Claim C6. When the four loops of \<open>CrossCheckVertical\<close> end within their bounds, the
  result is decided by the total of the three counters: no centre if
  \<open>5 * |total - originalTotal| >= 2 * originalTotal\<close>; otherwise the centre
  \<open>CenterFromEnd\<close> of the counters and the final row when \<open>FoundPatternCross\<close> accepts
  them, and no centre when it rejects them.
\<close>

theorem CrossCheckVertical_completed:
  assumes "count_up img centerJ True maxCount startI 0 = Value (i1, m1)"
    and "count_up img centerJ False maxCount i1 0 = Value (i0, c0)"
    and "count_down img centerJ True maxCount (bm_height img) (startI + 1) m1 = Value (i2, c1)"
    and "count_down img centerJ False maxCount (bm_height img) i2 0 = Value (i3, c2)"
    and "0 \<le> i1" "m1 \<le> maxCount" "c0 \<le> maxCount" "i2 \<noteq> bm_height img" "c1 \<le> maxCount"
      "c2 \<le> maxCount"
  shows "CrossCheckVertical img startI centerJ maxCount originalStateCountTotal moduleSize =
     (if 5 * \<bar>c0 + c1 + c2 - originalStateCountTotal\<bar> \<ge> 2 * originalStateCountTotal
      then Value None
      else if FoundPatternCross (c0, c1, c2) moduleSize
      then Value (Some (CenterFromEnd (c0, c1, c2) i3))
      else Value None)"
  using assms(5-10) by (simp add: CrossCheckVertical_trace [OF assms(1-4)])

theorem CrossCheckVertical_completed_witness:
  "CrossCheckVertical grid_ldl 1 0 2 3 1 = Value (Some (CenterFromEnd (1, 1, 1) 3))
   \<and> CrossCheckVertical grid_ldl 1 0 2 9 1 = Value None
   \<and> CrossCheckVertical grid_ldl 1 0 2 3 3 = Value None"
proof -
  have up1: "count_up grid_ldl 0 True 2 1 0 = Value (0, 1)"
    and up2: "count_up grid_ldl 0 False 2 0 0 = Value (- 1, 1)"
    and dn1: "count_down grid_ldl 0 True 2 (bm_height grid_ldl) (1 + 1) 1 = Value (2, 1)"
    and dn2: "count_down grid_ldl 0 False 2 (bm_height grid_ldl) 2 0 = Value (3, 1)"
    by (simp_all add: grid_eval grid_ldl_def)
  have ok: "(0::int) \<le> 0" "(1::int) \<le> 2" "2 \<noteq> bm_height grid_ldl"
    by (simp_all add: grid_ldl_def)
  note inst = CrossCheckVertical_completed [OF up1 up2 dn1 dn2 ok(1,2,2,3,2,2)]
  have "CrossCheckVertical grid_ldl 1 0 2 3 1 = Value (Some (CenterFromEnd (1, 1, 1) 3))"
    by (simp add: inst FoundPatternCross_unfold)
  moreover have "CrossCheckVertical grid_ldl 1 0 2 9 1 = Value None"
    by (simp add: inst)
  moreover have "CrossCheckVertical grid_ldl 1 0 2 3 3 = Value None"
    by (simp add: inst FoundPatternCross_unfold)
  ultimately show ?thesis by blast
qed

section \<open>Horizontal scan: one iteration at a time\<close>

lemma scan_columns_end:
  "\<not> j < maxJ \<Longrightarrow>
     scan_columns img i maxJ moduleSize j currentState stateCount possibleCenters
       = Value (Unconfirmed (stateCount, possibleCenters))"
  by (subst scan_columns.simps) simp

lemma scan_columns_fault:
  "j < maxJ \<Longrightarrow> get img j i = OutOfRange \<Longrightarrow>
     scan_columns img i maxJ moduleSize j currentState stateCount possibleCenters = OutOfRange"
  by (subst scan_columns.simps) simp

text \<open>A pixel that does not end a triple, or ends one that the validator rejects.\<close>

lemma scan_columns_plain:
  "j < maxJ \<Longrightarrow> get img j i = Value b \<Longrightarrow>
   \<not> (b \<and> currentState = 2 \<and> FoundPatternCross stateCount moduleSize) \<Longrightarrow>
     scan_columns img i maxJ moduleSize j currentState stateCount possibleCenters
       = scan_columns img i maxJ moduleSize (j + 1) (fst (advance b currentState stateCount))
           (snd (advance b currentState stateCount)) possibleCenters"
  by (subst scan_columns.simps) (auto simp: advance_def Let_def)

text \<open>A dark pixel that ends a triple the validator accepts.\<close>

lemma scan_columns_check:
  "j < maxJ \<Longrightarrow> get img j i = Value True \<Longrightarrow> FoundPatternCross stateCount moduleSize \<Longrightarrow>
     scan_columns img i maxJ moduleSize j 2 stateCount possibleCenters
       = (case HandlePossibleCenter img stateCount i j moduleSize possibleCenters of
            OutOfRange \<Rightarrow> OutOfRange
          | Value (Confirmed confirm) \<Rightarrow> Value (Confirmed confirm)
          | Value (Unconfirmed centers) \<Rightarrow>
              scan_columns img i maxJ moduleSize (j + 1) (fst (advance True 2 stateCount))
                (snd (advance True 2 stateCount)) centers)"
  by (subst scan_columns.simps) (auto simp: advance_def split: access.splits flow.splits)

text \<open>
  An invariant \<open>I\<close> of the loop state that every iteration preserves holds when the loop
  ends without a confirmation.
\<close>

lemma scan_columns_invariant:
  assumes "scan_columns img i maxJ moduleSize j currentState stateCount possibleCenters
             = Value (Unconfirmed (stateCount', centers'))"
    and "I j currentState stateCount possibleCenters"
    and adv: "\<And>j s sc cs b. I j s sc cs \<Longrightarrow> j < maxJ \<Longrightarrow> get img j i = Value b \<Longrightarrow>
               I (j + 1) (fst (advance b s sc)) (snd (advance b s sc)) cs"
    and hpc: "\<And>j sc cs cs'. I j 2 sc cs \<Longrightarrow> j < maxJ \<Longrightarrow> get img j i = Value True \<Longrightarrow>
               FoundPatternCross sc moduleSize \<Longrightarrow>
               HandlePossibleCenter img sc i j moduleSize cs = Value (Unconfirmed cs') \<Longrightarrow>
               I j 2 sc cs'"
  shows "\<exists>j' s'. I j' s' stateCount' centers' \<and> \<not> j' < maxJ \<and> j \<le> j'"
  using assms(1,2)
proof (induction "nat (maxJ - j)" arbitrary: j currentState stateCount possibleCenters
    rule: less_induct)
  case less
  note res = less.prems(1) and inv = less.prems(2)
  show ?case
  proof (cases "j < maxJ")
    case False
    with res inv show ?thesis
      by (auto simp: scan_columns_end)
  next
    case True
    note inside = this
    then have smaller: "nat (maxJ - (j + 1)) < nat (maxJ - j)" by simp
    from res obtain b where b: "get img j i = Value b"
      by (cases "get img j i") (auto simp: scan_columns_fault [OF inside])
    have "\<exists>j' s'. I j' s' stateCount' centers' \<and> \<not> j' < maxJ \<and> j + 1 \<le> j'"
    proof (cases "b \<and> currentState = 2 \<and> FoundPatternCross stateCount moduleSize")
      case False
      from res have rec: "scan_columns img i maxJ moduleSize (j + 1)
          (fst (advance b currentState stateCount)) (snd (advance b currentState stateCount))
          possibleCenters = Value (Unconfirmed (stateCount', centers'))"
        by (simp add: scan_columns_plain [OF inside b False])
      from less.hyps [OF smaller rec adv [OF inv inside b]] show ?thesis .
    next
      case True
      then have t: "b = True" and s: "currentState = 2"
        and f: "FoundPatternCross stateCount moduleSize" by simp_all
      note check = scan_columns_check [OF inside b [unfolded t] f]
      from res obtain cs where
        h: "HandlePossibleCenter img stateCount i j moduleSize possibleCenters
              = Value (Unconfirmed cs)"
        and rec: "scan_columns img i maxJ moduleSize (j + 1) (fst (advance True 2 stateCount))
                (snd (advance True 2 stateCount)) cs = Value (Unconfirmed (stateCount', centers'))"
        unfolding s check by (auto split: access.splits flow.splits)
      from hpc [OF inv [unfolded s] inside b [unfolded t] f h]
      have "I j 2 stateCount cs" .
      from less.hyps [OF smaller rec adv [OF this inside b [unfolded t]]] show ?thesis .
    qed
    then show ?thesis by force
  qed
qed

text \<open>
  If moreover the invariant keeps the pixel queries of the loop, and those of the calls it
  makes, inside the grid, the loop ends without a query out of range.
\<close>

lemma scan_columns_no_fault:
  assumes "I j currentState stateCount possibleCenters"
    and adv: "\<And>j s sc cs b. I j s sc cs \<Longrightarrow> j < maxJ \<Longrightarrow> get img j i = Value b \<Longrightarrow>
               I (j + 1) (fst (advance b s sc)) (snd (advance b s sc)) cs"
    and hpc: "\<And>j sc cs cs'. I j 2 sc cs \<Longrightarrow> j < maxJ \<Longrightarrow> get img j i = Value True \<Longrightarrow>
               FoundPatternCross sc moduleSize \<Longrightarrow>
               HandlePossibleCenter img sc i j moduleSize cs = Value (Unconfirmed cs') \<Longrightarrow>
               I j 2 sc cs'"
    and pix: "\<And>j s sc cs. I j s sc cs \<Longrightarrow> j < maxJ \<Longrightarrow> get img j i \<noteq> OutOfRange"
    and call: "\<And>j sc cs. I j 2 sc cs \<Longrightarrow> j < maxJ \<Longrightarrow> get img j i = Value True \<Longrightarrow>
               FoundPatternCross sc moduleSize \<Longrightarrow>
               HandlePossibleCenter img sc i j moduleSize cs \<noteq> OutOfRange"
  shows "scan_columns img i maxJ moduleSize j currentState stateCount possibleCenters
           \<noteq> OutOfRange"
  using assms(1)
proof (induction "nat (maxJ - j)" arbitrary: j currentState stateCount possibleCenters
    rule: less_induct)
  case less
  note inv = less.prems(1)
  show ?case
  proof (cases "j < maxJ")
    case False
    then show ?thesis by (simp add: scan_columns_end)
  next
    case True
    note inside = this
    then have smaller: "nat (maxJ - (j + 1)) < nat (maxJ - j)" by simp
    from pix [OF inv inside] obtain b where b: "get img j i = Value b"
      by (cases "get img j i") auto
    show ?thesis
    proof (cases "b \<and> currentState = 2 \<and> FoundPatternCross stateCount moduleSize")
      case False
      from less.hyps [OF smaller adv [OF inv inside b]] show ?thesis
        by (simp add: scan_columns_plain [OF inside b False])
    next
      case True
      then have t: "b = True" and s: "currentState = 2"
        and f: "FoundPatternCross stateCount moduleSize" by simp_all
      note check = scan_columns_check [OF inside b [unfolded t] f]
      show ?thesis
      proof (cases "HandlePossibleCenter img stateCount i j moduleSize possibleCenters")
        case OutOfRange
        with call [OF inv [unfolded s] inside b [unfolded t] f] show ?thesis by simp
      next
        case (Value r)
        show ?thesis
        proof (cases r)
          case (Confirmed c)
          with Value show ?thesis unfolding s check by simp
        next
          case (Unconfirmed cs)
          from hpc [OF inv [unfolded s] inside b [unfolded t] f Value [unfolded Unconfirmed]]
          have "I j 2 stateCount cs" .
          from less.hyps [OF smaller adv [OF this inside b [unfolded t]]]
          show ?thesis unfolding s check using Value Unconfirmed by simp
        qed
      qed
    qed
  qed
qed

section \<open>Row loop\<close>

lemma find_rows_end:
  "\<not> iGen < height \<Longrightarrow>
     find_rows img startX maxJ middleI height moduleSize iGen possibleCenters
       = Value (Unconfirmed possibleCenters)"
  by (subst find_rows.simps) simp

lemma find_rows_step:
  "iGen < height \<Longrightarrow>
     find_rows img startX maxJ middleI height moduleSize iGen possibleCenters
       = (case scan_row img startX maxJ moduleSize (row_of middleI iGen) possibleCenters of
            OutOfRange \<Rightarrow> OutOfRange
          | Value (Confirmed confirm) \<Rightarrow> Value (Confirmed confirm)
          | Value (Unconfirmed centers) \<Rightarrow>
              find_rows img startX maxJ middleI height moduleSize (iGen + 1) centers)"
  by (subst find_rows.simps) simp

text \<open>
  A property of the candidate list that every unconfirmed call of
  \<open>HandlePossibleCenter\<close> preserves holds of the list after a row, and after all rows.
\<close>

lemma scan_row_centers:
  assumes "scan_row img startX maxJ moduleSize i possibleCenters = Value (Unconfirmed centers')"
    and "P possibleCenters"
    and hpc: "\<And>sc j cs cs'. P cs \<Longrightarrow> FoundPatternCross sc moduleSize \<Longrightarrow>
               HandlePossibleCenter img sc i j moduleSize cs = Value (Unconfirmed cs') \<Longrightarrow> P cs'"
  shows "P centers'"
proof -
  from assms(1) obtain j where j: "burn_off img i maxJ startX = Value j"
    unfolding scan_row_def by (auto split: access.splits)
  from assms(1) j obtain sc cs where
    cols: "scan_columns img i maxJ moduleSize j 0 (0, 0, 0) possibleCenters
             = Value (Unconfirmed (sc, cs))"
    and last: "(if FoundPatternCross sc moduleSize
                then HandlePossibleCenter img sc i maxJ moduleSize cs
                else Value (Unconfirmed cs)) = Value (Unconfirmed centers')"
    unfolding scan_row_def by (auto split: access.splits flow.splits)
  have "P cs"
    using scan_columns_invariant [where I = "\<lambda>j s sc cs. P cs", OF cols assms(2)] hpc
    by blast
  with last hpc show ?thesis by (auto split: if_splits)
qed

lemma find_rows_centers:
  assumes "find_rows img startX maxJ middleI height moduleSize iGen possibleCenters
             = Value (Unconfirmed centers')"
    and "P possibleCenters"
    and hpc: "\<And>sc i j cs cs'. P cs \<Longrightarrow> FoundPatternCross sc moduleSize \<Longrightarrow>
               HandlePossibleCenter img sc i j moduleSize cs = Value (Unconfirmed cs') \<Longrightarrow> P cs'"
  shows "P centers'"
  using assms(1,2)
proof (induction "nat (height - iGen)" arbitrary: iGen possibleCenters rule: less_induct)
  case less
  show ?case
  proof (cases "iGen < height")
    case False
    with less.prems show ?thesis by (simp add: find_rows_end)
  next
    case True
    then have smaller: "nat (height - (iGen + 1)) < nat (height - iGen)" by simp
    from less.prems(1) obtain cs where
      row: "scan_row img startX maxJ moduleSize (row_of middleI iGen) possibleCenters
              = Value (Unconfirmed cs)"
      and rec: "find_rows img startX maxJ middleI height moduleSize (iGen + 1) cs
              = Value (Unconfirmed centers')"
      unfolding find_rows_step [OF True] by (auto split: access.splits flow.splits)
    have "P cs"
      by (rule scan_row_centers [where P = P, OF row less.prems(2)]) (rule hpc)
    from less.hyps [OF smaller rec this] show ?thesis .
  qed
qed

section \<open>Candidate aggregation\<close>

lemma first_match_None:
  "first_match centers moduleSize i j = None \<longleftrightarrow>
     (\<forall>center \<in> set centers. \<not> aboutEquals center moduleSize i j)"
  by (induction centers) auto

lemma first_match_Some:
  "first_match centers moduleSize i j = Some confirm \<Longrightarrow>
     \<exists>before center after. centers = before @ center # after
        \<and> (\<forall>p \<in> set before. \<not> aboutEquals p moduleSize i j)
        \<and> aboutEquals center moduleSize i j
        \<and> confirm = combineEstimate center i j moduleSize"
proof (induction centers)
  case Nil
  then show ?case by simp
next
  case (Cons c centers)
  show ?case
  proof (cases "aboutEquals c moduleSize i j")
    case True
    with Cons.prems have "confirm = combineEstimate c i j moduleSize" by simp
    with True show ?thesis by (intro exI [of _ "[]"] exI [of _ c] exI [of _ centers]) simp
  next
    case False
    with Cons.prems have "first_match centers moduleSize i j = Some confirm" by simp
    from Cons.IH [OF this] obtain before center after where
      h: "centers = before @ center # after" "\<forall>p \<in> set before. \<not> aboutEquals p moduleSize i j"
         "aboutEquals center moduleSize i j" "confirm = combineEstimate center i j moduleSize"
      by blast
    with False show ?thesis
      by (intro exI [of _ "c # before"] exI [of _ center] exI [of _ after]) simp
  qed
qed

lemma first_match_found:
  "centers = before @ center # after \<Longrightarrow> \<forall>p \<in> set before. \<not> aboutEquals p moduleSize i j \<Longrightarrow>
   aboutEquals center moduleSize i j \<Longrightarrow>
     first_match centers moduleSize i j = Some (combineEstimate center i j moduleSize)"
  by (induction before arbitrary: centers) auto

text \<open>The three ways \<open>HandlePossibleCenter\<close> returns, by the result of the cross-check.\<close>

lemma HandlePossibleCenter_cross:
  "HandlePossibleCenter img (c0, c1, c2) i j moduleSize possibleCenters =
     (case CrossCheckVertical img i (trunc (CenterFromEnd (c0, c1, c2) j)) (2 * c1)
             (c0 + c1 + c2) moduleSize of
        OutOfRange \<Rightarrow> OutOfRange
      | Value None \<Rightarrow> Value (Unconfirmed possibleCenters)
      | Value (Some centerI) \<Rightarrow>
          (case first_match possibleCenters (real_of_int (c0 + c1 + c2) / 3) centerI
                  (CenterFromEnd (c0, c1, c2) j) of
             Some confirm \<Rightarrow> Value (Confirmed confirm)
           | None \<Rightarrow> Value (Unconfirmed (possibleCenters @
               [newAlignmentPattern (CenterFromEnd (c0, c1, c2) j) centerI
                  (real_of_int (c0 + c1 + c2) / 3)]))))"
  by (auto simp: HandlePossibleCenter_def Let_def split: access.splits option.splits)

lemma HandlePossibleCenter_Unconfirmed:
  assumes "HandlePossibleCenter img (c0, c1, c2) i j moduleSize possibleCenters
             = Value (Unconfirmed centers')"
  shows "centers' = possibleCenters
     \<or> (\<exists>centerI. CrossCheckVertical img i (trunc (CenterFromEnd (c0, c1, c2) j)) (2 * c1)
             (c0 + c1 + c2) moduleSize = Value (Some centerI)
          \<and> (\<forall>center \<in> set possibleCenters. \<not> aboutEquals center
                 (real_of_int (c0 + c1 + c2) / 3) centerI (CenterFromEnd (c0, c1, c2) j))
          \<and> centers' = possibleCenters @
               [newAlignmentPattern (CenterFromEnd (c0, c1, c2) j) centerI
                  (real_of_int (c0 + c1 + c2) / 3)])"
  using assms unfolding HandlePossibleCenter_cross
  by (auto split: access.splits option.splits simp: first_match_None)

lemma HandlePossibleCenter_Confirmed:
  assumes "HandlePossibleCenter img (c0, c1, c2) i j moduleSize possibleCenters
             = Value (Confirmed confirm)"
  shows "\<exists>centerI. CrossCheckVertical img i (trunc (CenterFromEnd (c0, c1, c2) j)) (2 * c1)
             (c0 + c1 + c2) moduleSize = Value (Some centerI)
          \<and> first_match possibleCenters (real_of_int (c0 + c1 + c2) / 3) centerI
                  (CenterFromEnd (c0, c1, c2) j) = Some confirm"
  using assms unfolding HandlePossibleCenter_cross
  by (auto split: access.splits option.splits)

lemma HandlePossibleCenter_extends:
  assumes "HandlePossibleCenter img stateCount i j moduleSize possibleCenters
             = Value (Unconfirmed centers')"
  shows "\<exists>ext. centers' = possibleCenters @ ext"
proof -
  obtain c0 c1 c2 where sc: "stateCount = (c0, c1, c2)" by (cases stateCount) auto
  from HandlePossibleCenter_Unconfirmed [OF assms [unfolded sc]] show ?thesis by auto
qed

text \<open>The column that the cross-check of an accepted triple reads lies left of the end.\<close>

lemma center_column_bounds:
  assumes "FoundPatternCross (c0, c1, c2) moduleSize" and "c0 + c1 + c2 \<le> e"
  shows "0 \<le> trunc (CenterFromEnd (c0, c1, c2) e)" "trunc (CenterFromEnd (c0, c1, c2) e) < e"
proof -
  note pos = FoundPatternCross_pos [OF assms(1)]
  let ?c = "CenterFromEnd (c0, c1, c2) e"
  have c: "?c = real_of_int (e - c2) - real_of_int c1 / 2" by (simp add: CenterFromEnd_def)
  have "real_of_int c0 + real_of_int c1 + real_of_int c2 \<le> real_of_int e"
    using assms(2) by linarith
  moreover have "1 \<le> real_of_int c0" "1 \<le> real_of_int c1" "1 \<le> real_of_int c2"
    using pos by simp_all
  ultimately have lo: "0 \<le> ?c" and hi: "?c < real_of_int e" unfolding c by auto
  from lo have t: "trunc ?c = \<lfloor>?c\<rfloor>" by (simp add: trunc_def)
  from lo show "0 \<le> trunc ?c" unfolding t by simp
  from hi show "trunc ?c < e" unfolding t by (simp add: floor_less_iff)
qed

lemma HandlePossibleCenter_no_fault:
  assumes "FoundPatternCross (c0, c1, c2) moduleSize" and "c0 + c1 + c2 \<le> e"
    and "e \<le> bm_width img" and "0 \<le> i" and "i < bm_height img"
  shows "HandlePossibleCenter img (c0, c1, c2) i e moduleSize possibleCenters \<noteq> OutOfRange"
proof -
  note col = center_column_bounds [OF assms(1,2)]
  have "CrossCheckVertical img i (trunc (CenterFromEnd (c0, c1, c2) e)) (2 * c1)
          (c0 + c1 + c2) moduleSize \<noteq> OutOfRange"
    using col assms(3-5) by (intro CrossCheckVertical_no_fault) simp_all
  then show ?thesis
    unfolding HandlePossibleCenter_cross by (auto split: access.splits option.splits)
qed

section \<open>Pixel queries stay inside the grid\<close>

lemma burn_off_step:
  "burn_off img i maxJ j =
     (if j < maxJ then
        (case get img j i of
           OutOfRange \<Rightarrow> OutOfRange
         | Value b \<Rightarrow> if \<not> b then burn_off img i maxJ (j + 1) else Value j)
      else Value j)"
  by (rule burn_off.simps)

lemma burn_off_ge:
  "burn_off img i maxJ j = Value j' \<Longrightarrow> j \<le> j'"
proof (induction "nat (maxJ - j)" arbitrary: j rule: less_induct)
  case less
  show ?case
  proof (cases "j < maxJ")
    case False
    with less.prems show ?thesis by (simp add: burn_off_step [of img i maxJ j])
  next
    case True
    then have smaller: "nat (maxJ - (j + 1)) < nat (maxJ - j)" by simp
    from less.prems True have "burn_off img i maxJ (j + 1) = Value j' \<or> j' = j"
      by (subst (asm) burn_off_step) (auto split: access.splits if_splits)
    then show ?thesis using less.hyps [OF smaller] by force
  qed
qed

lemma burn_off_no_fault:
  assumes "maxJ \<le> bm_width img" "0 \<le> i" "i < bm_height img"
  shows "0 \<le> j \<Longrightarrow> burn_off img i maxJ j \<noteq> OutOfRange"
proof (induction "nat (maxJ - j)" arbitrary: j rule: less_induct)
  case less
  show ?case
  proof (cases "j < maxJ")
    case False
    then show ?thesis by (simp add: burn_off_step [of img i maxJ j])
  next
    case True
    then have smaller: "nat (maxJ - (j + 1)) < nat (maxJ - j)" by simp
    have g: "get img j i = Value (bm_pixel img j i)"
      using True less.prems assms by (simp add: get_def)
    have "burn_off img i maxJ (j + 1) \<noteq> OutOfRange"
      using less.hyps [OF smaller] less.prems by simp
    then show ?thesis
      by (subst burn_off_step) (simp add: True g)
  qed
qed

text \<open>
  The invariant of the column loop that keeps the queries in range: the counters are not
  negative, and once a pixel has been counted their sum is at most the column reached,
  which is at most \<open>maxJ\<close>.
\<close>

lemma advance_bounds:
  assumes "0 \<le> j" "0 \<le> c0" "0 \<le> c1" "0 \<le> c2"
    and "c0 + c1 + c2 = 0 \<or> c0 + c1 + c2 \<le> j \<and> j \<le> maxJ" and "j < maxJ"
    and "snd (advance b s (c0, c1, c2)) = (d0, d1, d2)"
  shows "0 \<le> d0 \<and> 0 \<le> d1 \<and> 0 \<le> d2 \<and> d0 + d1 + d2 \<le> j + 1"
  using assms by (auto simp: advance_def Let_def split: if_splits)

lemma scan_row_no_fault:
  assumes "0 \<le> startX" "maxJ \<le> bm_width img" "0 \<le> i" "i < bm_height img"
  shows "scan_row img startX maxJ moduleSize i possibleCenters \<noteq> OutOfRange"
proof -
  define I where "I = (\<lambda>(j::int) (s::nat) (sc::StateCount) (cs::AlignmentPattern list).
     0 \<le> j \<and> 0 \<le> sc_at sc 0 \<and> 0 \<le> sc_at sc 1 \<and> 0 \<le> sc_at sc 2
     \<and> (sc_at sc 0 + sc_at sc 1 + sc_at sc 2 = 0
          \<or> sc_at sc 0 + sc_at sc 1 + sc_at sc 2 \<le> j \<and> j \<le> maxJ))"
  have adv: "I (j + 1) (fst (advance b s sc)) (snd (advance b s sc)) cs"
    if "I j s sc cs" "j < maxJ" for j s sc cs b
  proof -
    obtain c0 c1 c2 where sc: "sc = (c0, c1, c2)" by (cases sc) auto
    obtain d0 d1 d2 where d: "snd (advance b s (c0, c1, c2)) = (d0, d1, d2)"
      by (cases "snd (advance b s (c0, c1, c2))") auto
    from that have "0 \<le> j" "0 \<le> c0" "0 \<le> c1" "0 \<le> c2"
      "c0 + c1 + c2 = 0 \<or> c0 + c1 + c2 \<le> j \<and> j \<le> maxJ"
      by (simp_all add: I_def sc)
    from advance_bounds [OF this that(2) d] that(1,2) show ?thesis
      by (simp add: I_def sc d)
  qed
  have hpc: "I j 2 sc cs'" if "I j 2 sc cs" for j sc cs cs'
    using that by (simp add: I_def)
  have pix: "get img j i \<noteq> OutOfRange" if "I j s sc cs" "j < maxJ" for j s sc cs
    using that assms by (simp add: I_def get_def)
  have call: "HandlePossibleCenter img sc i j moduleSize cs \<noteq> OutOfRange"
    if "I j s sc cs" "j \<le> maxJ" "FoundPatternCross sc moduleSize" for j s sc cs
  proof -
    obtain c0 c1 c2 where sc: "sc = (c0, c1, c2)" by (cases sc) auto
    note pos = FoundPatternCross_pos [OF that(3) [unfolded sc]]
    from that(1) pos have "c0 + c1 + c2 \<le> j" by (simp add: I_def sc)
    from HandlePossibleCenter_no_fault [OF that(3) [unfolded sc] this _ assms(3,4)]
      that(2) assms(2)
    show ?thesis unfolding sc by simp
  qed
  show ?thesis
  proof (cases "burn_off img i maxJ startX")
    case OutOfRange
    with burn_off_no_fault [OF assms(2-4) assms(1)] show ?thesis by simp
  next
    case (Value j)
    from burn_off_ge [OF Value] assms(1) have j: "0 \<le> j" by simp
    then have init: "I j 0 (0, 0, 0) possibleCenters" by (simp add: I_def)
    have cols: "scan_columns img i maxJ moduleSize j 0 (0, 0, 0) possibleCenters \<noteq> OutOfRange"
    proof (rule scan_columns_no_fault [where I = I, OF init])
      show "I (j + 1) (fst (advance b s sc)) (snd (advance b s sc)) cs"
        if "I j s sc cs" "j < maxJ" for j s sc cs b
        using that by (rule adv)
      show "I j 2 sc cs'" if "I j 2 sc cs" for j sc cs cs'
        using that by (rule hpc)
      show "get img j i \<noteq> OutOfRange" if "I j s sc cs" "j < maxJ" for j s sc cs
        using that by (rule pix)
      show "HandlePossibleCenter img sc i j moduleSize cs \<noteq> OutOfRange"
        if "I j 2 sc cs" "j < maxJ" "FoundPatternCross sc moduleSize" for j sc cs
        using that by (intro call [of j 2]) simp_all
    qed
    show ?thesis
    proof (cases "scan_columns img i maxJ moduleSize j 0 (0, 0, 0) possibleCenters")
      case OutOfRange
      with cols show ?thesis by simp
    next
      case r: (Value r)
      show ?thesis
      proof (cases r)
        case (Confirmed c)
        with Value r show ?thesis by (simp add: scan_row_def)
      next
        case (Unconfirmed p)
        obtain sc cs where p: "p = (sc, cs)" by (cases p) auto
        from scan_columns_invariant [where I = I, OF r [unfolded Unconfirmed p] init]
        obtain j' s' where fin: "I j' s' sc cs" "\<not> j' < maxJ"
          using adv hpc by blast
        show ?thesis
        proof (cases "FoundPatternCross sc moduleSize")
          case False
          with Value r Unconfirmed p show ?thesis by (simp add: scan_row_def)
        next
          case True
          obtain c0 c1 c2 where sc: "sc = (c0, c1, c2)" by (cases sc) auto
          note pos = FoundPatternCross_pos [OF True [unfolded sc]]
          from fin pos have "j' = maxJ" by (simp add: I_def sc)
          with fin(1) have "I maxJ s' sc cs" by simp
          from call [OF this _ True]
          have "HandlePossibleCenter img sc i maxJ moduleSize cs \<noteq> OutOfRange" by simp
          with Value r Unconfirmed p True show ?thesis by (simp add: scan_row_def)
        qed
      qed
    qed
  qed
qed

lemma row_of_even: "0 \<le> iGen \<Longrightarrow> iGen mod 2 = 0 \<Longrightarrow> row_of middleI iGen = middleI + (iGen + 1) div 2"
  by (simp add: row_of_def and_one_eq)

lemma row_of_odd: "0 \<le> iGen \<Longrightarrow> iGen mod 2 = 1 \<Longrightarrow> row_of middleI iGen = middleI - (iGen + 1) div 2"
  by (simp add: row_of_def and_one_eq)

lemma row_of_in_window:
  assumes "0 \<le> iGen" "iGen < height"
  shows "startY \<le> row_of (startY + half height) iGen"
    and "row_of (startY + half height) iGen < startY + height"
proof -
  have h: "half height = height div 2" using assms by (simp add: half_def)
  have "iGen mod 2 = 0 \<or> iGen mod 2 = 1" by presburger
  then consider "iGen mod 2 = 0" | "iGen mod 2 = 1" by blast
  then have "startY \<le> row_of (startY + half height) iGen
      \<and> row_of (startY + half height) iGen < startY + height"
  proof cases
    case 1
    with assms show ?thesis unfolding h row_of_even [OF assms(1) 1] by presburger
  next
    case 2
    with assms show ?thesis unfolding h row_of_odd [OF assms(1) 2] by presburger
  qed
  then show "startY \<le> row_of (startY + half height) iGen"
    and "row_of (startY + half height) iGen < startY + height" by simp_all
qed

lemma find_rows_no_fault:
  assumes "0 \<le> startX" "maxJ \<le> bm_width img" "0 \<le> startY" "startY + height \<le> bm_height img"
  shows "0 \<le> iGen \<Longrightarrow>
    find_rows img startX maxJ (startY + half height) height moduleSize iGen possibleCenters
      \<noteq> OutOfRange"
proof (induction "nat (height - iGen)" arbitrary: iGen possibleCenters rule: less_induct)
  case less
  show ?case
  proof (cases "iGen < height")
    case False
    then show ?thesis by (simp add: find_rows_end)
  next
    case True
    then have smaller: "nat (height - (iGen + 1)) < nat (height - iGen)" by simp
    note row = row_of_in_window [OF less.prems True, of startY]
    have "scan_row img startX maxJ moduleSize (row_of (startY + half height) iGen)
            possibleCenters \<noteq> OutOfRange"
      using row assms by (intro scan_row_no_fault) simp_all
    moreover have "find_rows img startX maxJ (startY + half height) height moduleSize
        (iGen + 1) cs \<noteq> OutOfRange" for cs
      using less.hyps [OF smaller] less.prems by simp
    ultimately show ?thesis
      unfolding find_rows_step [OF True] by (auto split: access.splits flow.splits)
  qed
qed

lemma Find_no_fault:
  assumes "window_in_grid img startX startY width height"
  shows "Find img startX startY width height moduleSize \<noteq> OutOfRange"
proof -
  from assms have w: "0 \<le> startX" "startX + width \<le> bm_width img" "0 \<le> startY"
    "startY + height \<le> bm_height img"
    by (simp_all add: window_in_grid_def)
  have "find_rows img startX (startX + width) (startY + half height) height moduleSize 0 []
          \<noteq> OutOfRange"
    by (rule find_rows_no_fault [OF w]) simp
  then show ?thesis
    by (auto simp: Find_def Let_def split: access.splits flow.splits list.splits)
qed

section \<open>Where a confirmation comes from\<close>

lemma scan_columns_Confirmed:
  "scan_columns img i maxJ moduleSize j currentState stateCount possibleCenters
     = Value (Confirmed confirm) \<Longrightarrow>
   \<exists>sc j' cs. FoundPatternCross sc moduleSize
      \<and> HandlePossibleCenter img sc i j' moduleSize cs = Value (Confirmed confirm)"
proof (induction "nat (maxJ - j)" arbitrary: j currentState stateCount possibleCenters
    rule: less_induct)
  case less
  note res = less.prems(1)
  show ?case
  proof (cases "j < maxJ")
    case False
    with res show ?thesis by (simp add: scan_columns_end)
  next
    case True
    note inside = this
    then have smaller: "nat (maxJ - (j + 1)) < nat (maxJ - j)" by simp
    from res obtain b where b: "get img j i = Value b"
      by (cases "get img j i") (auto simp: scan_columns_fault [OF inside])
    show ?thesis
    proof (cases "b \<and> currentState = 2 \<and> FoundPatternCross stateCount moduleSize")
      case False
      from res have "scan_columns img i maxJ moduleSize (j + 1)
          (fst (advance b currentState stateCount)) (snd (advance b currentState stateCount))
          possibleCenters = Value (Confirmed confirm)"
        by (simp add: scan_columns_plain [OF inside b False])
      from less.hyps [OF smaller this] show ?thesis .
    next
      case True
      then have t: "b = True" and s: "currentState = 2"
        and f: "FoundPatternCross stateCount moduleSize" by simp_all
      note check = scan_columns_check [OF inside b [unfolded t] f]
      show ?thesis
      proof (cases "HandlePossibleCenter img stateCount i j moduleSize possibleCenters
                      = Value (Confirmed confirm)")
        case True
        with f show ?thesis by blast
      next
        case False
        with res obtain cs where
          "scan_columns img i maxJ moduleSize (j + 1) (fst (advance True 2 stateCount))
             (snd (advance True 2 stateCount)) cs = Value (Confirmed confirm)"
          unfolding s check by (auto split: access.splits flow.splits)
        from less.hyps [OF smaller this] show ?thesis .
      qed
    qed
  qed
qed

lemma scan_row_Confirmed:
  assumes "scan_row img startX maxJ moduleSize i possibleCenters = Value (Confirmed confirm)"
  shows "\<exists>sc j cs. FoundPatternCross sc moduleSize
      \<and> HandlePossibleCenter img sc i j moduleSize cs = Value (Confirmed confirm)"
proof -
  from assms obtain j where j: "burn_off img i maxJ startX = Value j"
    unfolding scan_row_def by (auto split: access.splits)
  show ?thesis
  proof (cases "scan_columns img i maxJ moduleSize j 0 (0, 0, 0) possibleCenters
                  = Value (Confirmed confirm)")
    case True
    then show ?thesis by (rule scan_columns_Confirmed)
  next
    case False
    with assms j obtain sc cs where
      "FoundPatternCross sc moduleSize"
      "HandlePossibleCenter img sc i maxJ moduleSize cs = Value (Confirmed confirm)"
      unfolding scan_row_def by (auto split: access.splits flow.splits if_splits)
    then show ?thesis by blast
  qed
qed

lemma find_rows_Confirmed:
  "find_rows img startX maxJ middleI height moduleSize iGen possibleCenters
     = Value (Confirmed confirm) \<Longrightarrow>
   \<exists>sc i j cs. FoundPatternCross sc moduleSize
      \<and> HandlePossibleCenter img sc i j moduleSize cs = Value (Confirmed confirm)"
proof (induction "nat (height - iGen)" arbitrary: iGen possibleCenters rule: less_induct)
  case less
  show ?case
  proof (cases "iGen < height")
    case False
    with less.prems show ?thesis by (simp add: find_rows_end)
  next
    case True
    then have smaller: "nat (height - (iGen + 1)) < nat (height - iGen)" by simp
    show ?thesis
    proof (cases "scan_row img startX maxJ moduleSize (row_of middleI iGen) possibleCenters
                    = Value (Confirmed confirm)")
      case c: True
      from scan_row_Confirmed [OF c] show ?thesis by blast
    next
      case False
      with less.prems obtain cs where
        "find_rows img startX maxJ middleI height moduleSize (iGen + 1) cs
           = Value (Confirmed confirm)"
        unfolding find_rows_step [OF True] by (auto split: access.splits flow.splits)
      from less.hyps [OF smaller this] show ?thesis .
    qed
  qed
qed

section \<open>The search window and the grid\<close>

text \<open>
  Claim C1, as stated, fails: \<open>Find\<close> does not clamp the window. On a grid of one pixel
  the window of height 3 makes the scan start in row 1, which the grid does not have.
\<close>

theorem Find_window_past_edge:
  "get grid_one 0 1 = OutOfRange \<and> Find grid_one 0 0 1 3 1 = OutOfRange"
  by (simp add: get_def grid_one_def Find_def half_def find_rows.simps row_of_def scan_row_def
      burn_off.simps)

text \<open>
  Claim C1, amended. For every grid and every search window that lies within the grid,
  windows that touch the grid edges included, every pixel query of \<open>Find\<close> is inside the
  grid, and \<open>Find\<close> returns a pattern or \<open>NotFound\<close>.
\<close>

theorem Find_window_in_grid:
  "window_in_grid img startX startY width height \<Longrightarrow>
     Find img startX startY width height moduleSize = Value NotFound
     \<or> (\<exists>result. Find img startX startY width height moduleSize = Value (NoError result))"
proof -
  assume "window_in_grid img startX startY width height"
  from Find_no_fault [OF this, of moduleSize] show ?thesis
    by (cases "Find img startX startY width height moduleSize")
       (auto intro: DecodeStatus.exhaust)
qed

theorem Find_window_in_grid_witness:
  "window_in_grid grid_bar 0 0 4 4
   \<and> (Find grid_bar 0 0 4 4 (3 / 2) = Value NotFound
        \<or> (\<exists>result. Find grid_bar 0 0 4 4 (3 / 2) = Value (NoError result)))"
proof -
  have w: "window_in_grid grid_bar 0 0 4 4"
    by (simp add: window_in_grid_def grid_bar_def)
  from Find_window_in_grid [OF w, of "3 / 2"] w show ?thesis by blast
qed

section \<open>Module sizes that are not positive\<close>

lemma FoundPatternCross_non_positive:
  "moduleSize \<le> 0 \<Longrightarrow> \<not> FoundPatternCross stateCount moduleSize"
proof
  assume le: "moduleSize \<le> 0" and f: "FoundPatternCross stateCount moduleSize"
  obtain c0 c1 c2 where sc: "stateCount = (c0, c1, c2)" by (cases stateCount) auto
  from FoundPatternCross_pos(1) [OF f [unfolded sc]] le show False by simp
qed

lemma find_rows_non_positive:
  assumes "moduleSize \<le> 0"
  shows "find_rows img startX maxJ middleI height moduleSize iGen possibleCenters = OutOfRange
     \<or> find_rows img startX maxJ middleI height moduleSize iGen possibleCenters
          = Value (Unconfirmed possibleCenters)"
proof (cases "find_rows img startX maxJ middleI height moduleSize iGen possibleCenters")
  case OutOfRange
  then show ?thesis by simp
next
  case (Value r)
  show ?thesis
  proof (cases r)
    case (Confirmed c)
    from find_rows_Confirmed [OF Value [unfolded Confirmed]]
      FoundPatternCross_non_positive [OF assms]
    show ?thesis by blast
  next
    case (Unconfirmed cs)
    have "cs = possibleCenters"
      by (rule find_rows_centers [where P = "\<lambda>cs. cs = possibleCenters",
            OF Value [unfolded Unconfirmed]])
         (simp_all add: FoundPatternCross_non_positive [OF assms])
    with Value Unconfirmed show ?thesis by simp
  qed
qed

text \<open>
  Claim C10, as stated, fails for a window that leaves the grid: with module size 0 the
  window of height 3 on the grid of one pixel does not give \<open>NotFound\<close>, the scan starts
  in a row outside the grid.
\<close>

theorem Find_non_positive_past_edge:
  "(0::real) \<le> 0 \<and> Find grid_one 0 0 1 3 0 = OutOfRange"
  by (simp add: get_def grid_one_def Find_def half_def find_rows.simps row_of_def scan_row_def
      burn_off.simps)

text \<open>
  Claim C10, amended. If the expected module size is at most 0, the validator accepts no
  triple, no candidate is recorded, and \<open>Find\<close> never returns a pattern; for every window
  that lies within the grid it returns \<open>NotFound\<close>.
\<close>

theorem Find_non_positive_module_size:
  assumes "moduleSize \<le> 0"
  shows "\<not> FoundPatternCross stateCount moduleSize
     \<and> (\<forall>result. Find img startX startY width height moduleSize \<noteq> Value (NoError result))
     \<and> (window_in_grid img startX startY width height \<longrightarrow>
          Find img startX startY width height moduleSize = Value NotFound)"
proof -
  let ?rows = "find_rows img startX (startX + width) (startY + half height) height moduleSize 0 []"
  from find_rows_non_positive [OF assms, of img startX "startX + width"
      "startY + half height" height 0 "[]"]
  have "?rows = OutOfRange \<or> ?rows = Value (Unconfirmed [])" .
  then have f: "Find img startX startY width height moduleSize = OutOfRange
      \<or> Find img startX startY width height moduleSize = Value NotFound"
    by (auto simp: Find_def Let_def)
  then have "\<forall>result. Find img startX startY width height moduleSize \<noteq> Value (NoError result)"
    by auto
  moreover have "Find img startX startY width height moduleSize = Value NotFound"
    if "window_in_grid img startX startY width height"
    using f Find_no_fault [OF that, of moduleSize] by simp
  ultimately show ?thesis
    using FoundPatternCross_non_positive [OF assms] by blast
qed

theorem Find_non_positive_module_size_witness:
  "(0::real) \<le> 0 \<and> window_in_grid grid_bar 0 0 4 4 \<and> Find grid_bar 0 0 4 4 0 = Value NotFound"
proof -
  have le: "(0::real) \<le> 0" by simp
  have w: "window_in_grid grid_bar 0 0 4 4"
    by (simp add: window_in_grid_def grid_bar_def)
  from Find_non_positive_module_size [OF le, of _ grid_bar 0 0 4 4] w le
  show ?thesis by blast
qed

section \<open>Row order\<close>

lemma row_of_zigzag: "row_of middleI (int g) = zigzag middleI g"
proof (cases "even g")
  case True
  then have "int g mod 2 = 0" by presburger
  with True show ?thesis by (simp add: row_of_def zigzag_def and_one_eq)
next
  case False
  then have "int g mod 2 = 1" by presburger
  with False show ?thesis by (simp add: row_of_def zigzag_def and_one_eq)
qed

lemma find_rows_visit:
  "find_rows img startX maxJ middleI height moduleSize (int g) possibleCenters
     = visit_rows img startX maxJ moduleSize (map (zigzag middleI) [g..<nat height])
         possibleCenters"
proof (induction "nat height - g" arbitrary: g possibleCenters rule: less_induct)
  case less
  show ?case
  proof (cases "int g < height")
    case False
    then have "[g..<nat height] = []" by simp
    with False show ?thesis by (simp add: find_rows_end)
  next
    case True
    then have lt: "g < nat height" by simp
    then have smaller: "nat height - Suc g < nat height - g" by simp
    have list: "[g..<nat height] = g # [Suc g..<nat height]"
      using lt by (simp add: upt_conv_Cons)
    have next_gen: "int g + 1 = int (Suc g)" by simp
    show ?thesis
      unfolding find_rows_step [OF True] list next_gen less.hyps [OF smaller]
      by (simp add: row_of_zigzag)
  qed
qed

lemma find_rows_spec_order:
  "find_rows img startX maxJ (windowY + half windowHeight) windowHeight moduleSize 0
       possibleCenters
     = visit_rows img startX maxJ moduleSize (spec_row_order windowY windowHeight)
         possibleCenters"
proof (cases "0 \<le> windowHeight")
  case True
  then have "half windowHeight = windowHeight div 2" by (simp add: half_def)
  then show ?thesis
    using find_rows_visit [of img startX maxJ "windowY + half windowHeight" windowHeight
        moduleSize 0 possibleCenters]
    by (simp add: spec_row_order_def)
next
  case False
  then show ?thesis by (simp add: spec_row_order_def find_rows_end)
qed

text \<open>
  Claim C5. \<open>Find\<close> scans the rows in the zig-zag order of the specification: the loop
  over the generations is the scan, in order, of the rows
  \<open>middleRow + (g+1)/2\<close> for even \<open>g\<close> and \<open>middleRow - (g+1)/2\<close> for odd \<open>g\<close>,
  \<open>g = 0, ..., windowHeight - 1\<close>, with \<open>middleRow = windowY + windowHeight/2\<close>; the
  scan stops early only at a confirmation. The middle row comes first, then the rows
  alternate outwards, as for a window of height 5 starting at row 0.
\<close>

theorem Find_row_order:
  "Find img windowX windowY windowWidth windowHeight moduleSize =
     (case visit_rows img windowX (windowX + windowWidth) moduleSize
             (spec_row_order windowY windowHeight) [] of
        OutOfRange \<Rightarrow> OutOfRange
      | Value (Confirmed confirm) \<Rightarrow> Value (NoError confirm)
      | Value (Unconfirmed possibleCenters) \<Rightarrow>
          (case possibleCenters of
             [] \<Rightarrow> Value NotFound
           | front # rest \<Rightarrow> Value (NoError front)))
   \<and> row_of (windowY + half windowHeight) (int g) = zigzag (windowY + half windowHeight) g
   \<and> length (spec_row_order windowY windowHeight) = nat windowHeight
   \<and> spec_row_order windowY 1 = [windowY]
   \<and> spec_row_order 0 5 = [2, 1, 3, 0, 4]"
proof -
  have "spec_row_order 0 5 = [2, 1, 3, 0, 4]"
    by code_simp
  moreover have "spec_row_order windowY 1 = [windowY]"
    by (simp add: spec_row_order_def zigzag_def)
  ultimately show ?thesis
    by (simp add: Find_def Let_def find_rows_spec_order row_of_zigzag spec_row_order_def)
qed

theorem Find_row_order_witness:
  "spec_row_order 0 4 = [2, 1, 3, 0]
   \<and> visit_rows grid_bar 0 (0 + 4) (3 / 2) (spec_row_order 0 4) [] = Value (Confirmed
        \<lparr>centerX = 5 / 2, centerY = 2, estimatedSize = 1, observationCount = 2\<rparr>)
   \<and> Find grid_bar 0 0 4 4 (3 / 2) = Value (NoError
        \<lparr>centerX = 5 / 2, centerY = 2, estimatedSize = 1, observationCount = 2\<rparr>)"
proof -
  have order: "spec_row_order 0 4 = [2, 1, 3, 0]"
    by code_simp
  have visit: "visit_rows grid_bar 0 (0 + 4) (3 / 2) (spec_row_order 0 4) []
      = Value (Confirmed
          \<lparr>centerX = 5 / 2, centerY = 2, estimatedSize = 1, observationCount = 2\<rparr>)"
    by code_simp
  from Find_row_order [of grid_bar 0 0 4 4 "3 / 2" 0]
  have "Find grid_bar 0 0 4 4 (3 / 2) =
     (case visit_rows grid_bar 0 (0 + 4) (3 / 2) (spec_row_order 0 4) [] of
        OutOfRange \<Rightarrow> OutOfRange
      | Value (Confirmed confirm) \<Rightarrow> Value (NoError confirm)
      | Value (Unconfirmed possibleCenters) \<Rightarrow>
          (case possibleCenters of
             [] \<Rightarrow> Value NotFound
           | front # rest \<Rightarrow> Value (NoError front)))"
    by blast
  with order visit show ?thesis by simp
qed

section \<open>The search replays its observations through the aggregator\<close>

lemma HandlePossibleCenter_observe:
  "HandlePossibleCenter img stateCount i j moduleSize possibleCenters =
     (case observe img stateCount i j moduleSize of
        OutOfRange \<Rightarrow> OutOfRange
      | Value None \<Rightarrow> Value (Unconfirmed possibleCenters)
      | Value (Some new) \<Rightarrow> Value (tryConfirm new possibleCenters))"
  by (auto simp: HandlePossibleCenter_def observe_def tryConfirm_def Let_def
      newAlignmentPattern_def split: access.splits option.splits)

lemma aggregate_append:
  "aggregate (seen @ later) candidates =
     (case aggregate seen candidates of
        Confirmed confirm \<Rightarrow> Confirmed confirm
      | Unconfirmed centers \<Rightarrow> aggregate later centers)"
  by (induction seen arbitrary: candidates) (auto split: flow.splits)

lemma aggregate_Unconfirmed:
  "aggregate seen candidates = Unconfirmed centers \<Longrightarrow> centers = candidates @ seen"
proof (induction seen arbitrary: candidates)
  case Nil
  then show ?case by simp
next
  case (Cons new seen)
  from Cons.prems obtain cs where
    t: "tryConfirm new candidates = Unconfirmed cs" and r: "aggregate seen cs = Unconfirmed centers"
    by (auto split: flow.splits)
  from t have "cs = candidates @ [new]"
    by (auto simp: tryConfirm_def split: option.splits)
  with Cons.IH [OF r] show ?case by simp
qed

lemma aggregate_Confirmed:
  "aggregate seen candidates = Confirmed confirm \<Longrightarrow>
     \<exists>before new after. seen = before @ new # after
        \<and> aggregate before candidates = Unconfirmed (candidates @ before)
        \<and> tryConfirm new (candidates @ before) = Confirmed confirm"
proof (induction seen arbitrary: candidates)
  case Nil
  then show ?case by simp
next
  case (Cons new seen)
  show ?case
  proof (cases "tryConfirm new candidates")
    case (Confirmed c)
    with Cons.prems have "c = confirm" by simp
    with Confirmed show ?thesis
      by (intro exI [of _ "[]"] exI [of _ new] exI [of _ seen]) simp
  next
    case (Unconfirmed cs)
    then have cs: "cs = candidates @ [new]"
      by (auto simp: tryConfirm_def split: option.splits)
    from Cons.prems Unconfirmed have "aggregate seen cs = Confirmed confirm" by simp
    from Cons.IH [OF this] obtain before n after where
      h: "seen = before @ n # after" "aggregate before cs = Unconfirmed (cs @ before)"
         "tryConfirm n (cs @ before) = Confirmed confirm"
      by blast
    show ?thesis
      using h Unconfirmed cs
      by (intro exI [of _ "new # before"] exI [of _ n] exI [of _ after]) simp
  qed
qed

lemma aggregate_first_confirmation:
  assumes "seen = before @ new # after"
    and "aggregate before candidates = Unconfirmed centers"
    and "tryConfirm new centers = Confirmed confirm"
  shows "aggregate seen candidates = Confirmed confirm"
  using assms by (simp add: aggregate_append)

lemma column_trace_end:
  "\<not> j < maxJ \<Longrightarrow>
     column_trace img i maxJ moduleSize j currentState stateCount = ([], Some stateCount)"
  by (subst column_trace.simps) simp

lemma column_trace_fault:
  "j < maxJ \<Longrightarrow> get img j i = OutOfRange \<Longrightarrow>
     column_trace img i maxJ moduleSize j currentState stateCount = ([], None)"
  by (subst column_trace.simps) simp

lemma column_trace_plain:
  "j < maxJ \<Longrightarrow> get img j i = Value b \<Longrightarrow>
   \<not> (b \<and> currentState = 2 \<and> FoundPatternCross stateCount moduleSize) \<Longrightarrow>
     column_trace img i maxJ moduleSize j currentState stateCount
       = column_trace img i maxJ moduleSize (j + 1) (fst (advance b currentState stateCount))
           (snd (advance b currentState stateCount))"
  by (subst column_trace.simps) auto

lemma column_trace_check:
  "j < maxJ \<Longrightarrow> get img j i = Value True \<Longrightarrow> FoundPatternCross stateCount moduleSize \<Longrightarrow>
     column_trace img i maxJ moduleSize j 2 stateCount
       = (case observe img stateCount i j moduleSize of
            OutOfRange \<Rightarrow> ([], None)
          | Value None \<Rightarrow>
              column_trace img i maxJ moduleSize (j + 1) (fst (advance True 2 stateCount))
                (snd (advance True 2 stateCount))
          | Value (Some new) \<Rightarrow>
              (new # fst (column_trace img i maxJ moduleSize (j + 1)
                            (fst (advance True 2 stateCount)) (snd (advance True 2 stateCount))),
               snd (column_trace img i maxJ moduleSize (j + 1)
                            (fst (advance True 2 stateCount)) (snd (advance True 2 stateCount)))))"
  by (subst column_trace.simps) (auto split: access.splits option.splits prod.splits)

text \<open>The column loop is the aggregation of its observations.\<close>

lemma scan_columns_trace:
  "scan_columns img i maxJ moduleSize j currentState stateCount possibleCenters =
     (case aggregate (fst (column_trace img i maxJ moduleSize j currentState stateCount))
             possibleCenters of
        Confirmed confirm \<Rightarrow> Value (Confirmed confirm)
      | Unconfirmed centers \<Rightarrow>
          (case snd (column_trace img i maxJ moduleSize j currentState stateCount) of
             None \<Rightarrow> OutOfRange
           | Some final \<Rightarrow> Value (Unconfirmed (final, centers))))"
proof (induction "nat (maxJ - j)" arbitrary: j currentState stateCount possibleCenters
    rule: less_induct)
  case less
  show ?case
  proof (cases "j < maxJ")
    case False
    then show ?thesis by (simp add: scan_columns_end column_trace_end)
  next
    case True
    note inside = this
    then have smaller: "nat (maxJ - (j + 1)) < nat (maxJ - j)" by simp
    show ?thesis
    proof (cases "get img j i")
      case OutOfRange
      with inside show ?thesis by (simp add: scan_columns_fault column_trace_fault)
    next
      case (Value b)
      show ?thesis
      proof (cases "b \<and> currentState = 2 \<and> FoundPatternCross stateCount moduleSize")
        case False
        show ?thesis
          unfolding scan_columns_plain [OF inside Value False]
            column_trace_plain [OF inside Value False]
          by (rule less.hyps [OF smaller])
      next
        case True
        then have t: "b = True" and s: "currentState = 2"
          and f: "FoundPatternCross stateCount moduleSize" by simp_all
        note IH = less.hyps [OF smaller, of "fst (advance True 2 stateCount)"
            "snd (advance True 2 stateCount)"]
        show ?thesis
          unfolding s scan_columns_check [OF inside Value [unfolded t] f]
            column_trace_check [OF inside Value [unfolded t] f]
            HandlePossibleCenter_observe
          by (auto simp: IH split: access.splits option.splits flow.splits)
      qed
    qed
  qed
qed

lemma scan_row_trace:
  "scan_row img startX maxJ moduleSize i possibleCenters =
     (case aggregate (fst (row_trace img startX maxJ moduleSize i)) possibleCenters of
        Confirmed confirm \<Rightarrow> Value (Confirmed confirm)
      | Unconfirmed centers \<Rightarrow>
          if snd (row_trace img startX maxJ moduleSize i) then Value (Unconfirmed centers)
          else OutOfRange)"
proof (cases "burn_off img i maxJ startX")
  case OutOfRange
  then show ?thesis by (simp add: scan_row_def row_trace_def)
next
  case (Value j)
  obtain seen final where t: "column_trace img i maxJ moduleSize j 0 (0, 0, 0) = (seen, final)"
    by (cases "column_trace img i maxJ moduleSize j 0 (0, 0, 0)") auto
  have cols: "scan_columns img i maxJ moduleSize j 0 (0, 0, 0) possibleCenters =
     (case aggregate seen possibleCenters of
        Confirmed confirm \<Rightarrow> Value (Confirmed confirm)
      | Unconfirmed centers \<Rightarrow>
          (case final of None \<Rightarrow> OutOfRange | Some sc \<Rightarrow> Value (Unconfirmed (sc, centers))))"
    by (simp add: scan_columns_trace t split: flow.splits)
  show ?thesis
  proof (cases final)
    case None
    then have "row_trace img startX maxJ moduleSize i = (seen, False)"
      by (simp add: row_trace_def Value t)
    with None cols Value show ?thesis
      by (simp add: scan_row_def split: flow.splits)
  next
    case (Some sc)
    show ?thesis
    proof (cases "FoundPatternCross sc moduleSize")
      case False
      then have "row_trace img startX maxJ moduleSize i = (seen, True)"
        by (simp add: row_trace_def Value t Some)
      with Some cols Value False show ?thesis
        by (simp add: scan_row_def split: flow.splits)
    next
      case True
      show ?thesis
      proof (cases "observe img sc i maxJ moduleSize")
        case OutOfRange
        then have "row_trace img startX maxJ moduleSize i = (seen, False)"
          by (simp add: row_trace_def Value t Some True)
        with Some cols Value True OutOfRange show ?thesis
          by (simp add: scan_row_def HandlePossibleCenter_observe split: flow.splits)
      next
        case obs: (Value r)
        show ?thesis
        proof (cases r)
          case None
          then have "row_trace img startX maxJ moduleSize i = (seen, True)"
            by (simp add: row_trace_def Value t Some True obs)
          with Some cols Value True obs None show ?thesis
            by (simp add: scan_row_def HandlePossibleCenter_observe split: flow.splits)
        next
          case new: (Some new)
          then have "row_trace img startX maxJ moduleSize i = (seen @ [new], True)"
            by (simp add: row_trace_def Value t Some True obs)
          with Some cols Value True obs new show ?thesis
            by (simp add: scan_row_def HandlePossibleCenter_observe aggregate_append
                split: flow.splits)
        qed
      qed
    qed
  qed
qed

lemma visit_rows_trace:
  "visit_rows img startX maxJ moduleSize rows possibleCenters =
     (case aggregate (fst (rows_trace img startX maxJ moduleSize rows)) possibleCenters of
        Confirmed confirm \<Rightarrow> Value (Confirmed confirm)
      | Unconfirmed centers \<Rightarrow>
          if snd (rows_trace img startX maxJ moduleSize rows) then Value (Unconfirmed centers)
          else OutOfRange)"
proof (induction rows arbitrary: possibleCenters)
  case Nil
  then show ?case by simp
next
  case (Cons i rows)
  obtain seen ok where r: "row_trace img startX maxJ moduleSize i = (seen, ok)"
    by (cases "row_trace img startX maxJ moduleSize i") auto
  obtain later completed where l: "rows_trace img startX maxJ moduleSize rows = (later, completed)"
    by (cases "rows_trace img startX maxJ moduleSize rows") auto
  show ?case
    using Cons.IH
    by (cases ok)
       (auto simp: scan_row_trace r l aggregate_append split: flow.splits)
qed

lemma find_rows_trace:
  "find_rows img startX (startX + width) (startY + half height) height moduleSize 0
       possibleCenters =
     (case aggregate (fst (Find_trace img startX startY width height moduleSize))
             possibleCenters of
        Confirmed confirm \<Rightarrow> Value (Confirmed confirm)
      | Unconfirmed centers \<Rightarrow>
          if snd (Find_trace img startX startY width height moduleSize)
          then Value (Unconfirmed centers) else OutOfRange)"
  unfolding Find_trace_def by (simp add: find_rows_spec_order visit_rows_trace)

text \<open>
  \<open>Find\<close> in terms of the observations of the window: the first confirmation the
  aggregator reaches is the result; without one, and with every query inside the grid, the
  result is the first observation, or \<open>NotFound\<close> when there is none.
\<close>

lemma Find_replay:
  "Find img startX startY width height moduleSize =
     (case aggregate (fst (Find_trace img startX startY width height moduleSize)) [] of
        Confirmed confirm \<Rightarrow> Value (NoError confirm)
      | Unconfirmed centers \<Rightarrow>
          if snd (Find_trace img startX startY width height moduleSize)
          then (case fst (Find_trace img startX startY width height moduleSize) of
                  [] \<Rightarrow> Value NotFound
                | first # rest \<Rightarrow> Value (NoError first))
          else OutOfRange)"
proof (cases "aggregate (fst (Find_trace img startX startY width height moduleSize)) []")
  case (Confirmed c)
  then show ?thesis by (simp add: Find_def Let_def find_rows_trace)
next
  case (Unconfirmed cs)
  from aggregate_Unconfirmed [OF this]
  have "cs = fst (Find_trace img startX startY width height moduleSize)" by simp
  with Unconfirmed show ?thesis
    by (simp add: Find_def Let_def find_rows_trace)
qed

section \<open>Result selection\<close>

lemma find_rows_extends:
  assumes "find_rows img startX maxJ middleI height moduleSize iGen possibleCenters
             = Value (Unconfirmed centers')"
  shows "\<exists>ext. centers' = possibleCenters @ ext"
proof (rule find_rows_centers [where P = "\<lambda>cs. \<exists>ext. cs = possibleCenters @ ext", OF assms])
  show "\<exists>ext. possibleCenters = possibleCenters @ ext" by simp
next
  fix sc i j cs cs'
  assume "\<exists>ext. cs = possibleCenters @ ext"
    and "HandlePossibleCenter img sc i j moduleSize cs = Value (Unconfirmed cs')"
  then show "\<exists>ext. cs' = possibleCenters @ ext"
    using HandlePossibleCenter_extends by fastforce
qed

lemma scan_row_at_end:
  assumes "burn_off img i maxJ startX = Value j"
    and "scan_columns img i maxJ moduleSize j 0 (0, 0, 0) possibleCenters
           = Value (Unconfirmed (stateCount, centers))"
    and "FoundPatternCross stateCount moduleSize"
  shows "scan_row img startX maxJ moduleSize i possibleCenters
           = HandlePossibleCenter img stateCount i maxJ moduleSize centers"
  using assms by (simp add: scan_row_def)

text \<open>
  Claim C4. \<open>Find\<close> returns the combined candidate as soon as \<open>HandlePossibleCenter\<close>
  confirms one: a confirmation inside a row ends the column loop, a confirmation in a row
  ends the row loop, and \<open>Find\<close> returns it. When all rows are exhausted, \<open>Find\<close> returns
  the front of the candidate list if there is one and \<open>NotFound\<close> exactly when the list is
  empty. The list only grows at its end, so its front is the first candidate recorded.

  End to end, in terms of the observations the scan of the window makes, in scan order:
  \<open>Find\<close> returns the combined candidate of the first observation that the aggregator
  confirms, whatever the scan would meet after it; with no confirmation every observation
  is recorded, in order, and \<open>Find\<close> returns the first of them; it returns \<open>NotFound\<close>
  exactly when the scan completes without any observation.
\<close>

theorem Find_result_selection:
  "(find_rows img startX (startX + width) (startY + half height) height moduleSize 0 []
      = Value (Confirmed confirm) \<longrightarrow>
    Find img startX startY width height moduleSize = Value (NoError confirm))
   \<and> (find_rows img startX (startX + width) (startY + half height) height moduleSize 0 []
      = Value (Unconfirmed (front # rest)) \<longrightarrow>
    Find img startX startY width height moduleSize = Value (NoError front))
   \<and> (Find img startX startY width height moduleSize = Value NotFound \<longleftrightarrow>
    find_rows img startX (startX + width) (startY + half height) height moduleSize 0 []
      = Value (Unconfirmed []))
   \<and> (find_rows img startX maxJ middleI height moduleSize iGen centers
      = Value (Confirmed confirm) \<longrightarrow>
    (\<exists>sc r c cs. FoundPatternCross sc moduleSize
       \<and> HandlePossibleCenter img sc r c moduleSize cs = Value (Confirmed confirm)))
   \<and> (j < maxJ \<longrightarrow> get img j i = Value True \<longrightarrow> FoundPatternCross stateCount moduleSize \<longrightarrow>
    HandlePossibleCenter img stateCount i j moduleSize centers = Value (Confirmed confirm) \<longrightarrow>
    scan_columns img i maxJ moduleSize j 2 stateCount centers = Value (Confirmed confirm))
   \<and> (burn_off img i maxJ startX = Value j \<longrightarrow>
    scan_columns img i maxJ moduleSize j 0 (0, 0, 0) centers = Value (Confirmed confirm) \<longrightarrow>
    scan_row img startX maxJ moduleSize i centers = Value (Confirmed confirm))
   \<and> (burn_off img i maxJ startX = Value j \<longrightarrow>
    scan_columns img i maxJ moduleSize j 0 (0, 0, 0) centers
      = Value (Unconfirmed (stateCount, centers')) \<longrightarrow>
    FoundPatternCross stateCount moduleSize \<longrightarrow>
    HandlePossibleCenter img stateCount i maxJ moduleSize centers'
      = Value (Confirmed confirm) \<longrightarrow>
    scan_row img startX maxJ moduleSize i centers = Value (Confirmed confirm))
   \<and> (iGen < height \<longrightarrow>
    scan_row img startX maxJ moduleSize (row_of middleI iGen) centers
      = Value (Confirmed confirm) \<longrightarrow>
    find_rows img startX maxJ middleI height moduleSize iGen centers
      = Value (Confirmed confirm))
   \<and> (HandlePossibleCenter img stateCount i j moduleSize centers
      = Value (Unconfirmed centers') \<longrightarrow>
    (\<exists>ext. centers' = centers @ ext))
   \<and> (find_rows img startX maxJ middleI height moduleSize iGen (first # later)
      = Value (Unconfirmed centers') \<longrightarrow>
    (\<exists>ext. centers' = first # later @ ext))
   \<and> Find img startX startY width height moduleSize =
       (case aggregate (fst (Find_trace img startX startY width height moduleSize)) [] of
          Confirmed combined \<Rightarrow> Value (NoError combined)
        | Unconfirmed recorded \<Rightarrow>
            if snd (Find_trace img startX startY width height moduleSize)
            then (case fst (Find_trace img startX startY width height moduleSize) of
                    [] \<Rightarrow> Value NotFound
                  | earliest # others \<Rightarrow> Value (NoError earliest))
            else OutOfRange)
   \<and> (fst (Find_trace img startX startY width height moduleSize) = seen @ new # unseen \<longrightarrow>
    aggregate seen [] = Unconfirmed seen \<longrightarrow>
    tryConfirm new seen = Confirmed combined \<longrightarrow>
    Find img startX startY width height moduleSize = Value (NoError combined))
   \<and> (snd (Find_trace img startX startY width height moduleSize) \<longrightarrow>
    aggregate (fst (Find_trace img startX startY width height moduleSize)) []
      = Unconfirmed recorded \<longrightarrow>
    recorded = fst (Find_trace img startX startY width height moduleSize)
    \<and> (recorded = earliest # others \<longrightarrow>
         Find img startX startY width height moduleSize = Value (NoError earliest)))
   \<and> (Find img startX startY width height moduleSize = Value NotFound \<longleftrightarrow>
    snd (Find_trace img startX startY width height moduleSize)
    \<and> fst (Find_trace img startX startY width height moduleSize) = [])"
proof (intro conjI impI)
  assume "find_rows img startX (startX + width) (startY + half height) height moduleSize 0 []
      = Value (Confirmed confirm)"
  then show "Find img startX startY width height moduleSize = Value (NoError confirm)"
    by (simp add: Find_def Let_def)
next
  assume "find_rows img startX (startX + width) (startY + half height) height moduleSize 0 []
      = Value (Unconfirmed (front # rest))"
  then show "Find img startX startY width height moduleSize = Value (NoError front)"
    by (simp add: Find_def Let_def)
next
  show "Find img startX startY width height moduleSize = Value NotFound \<longleftrightarrow>
    find_rows img startX (startX + width) (startY + half height) height moduleSize 0 []
      = Value (Unconfirmed [])"
    by (auto simp: Find_def Let_def split: access.splits flow.splits list.splits)
next
  assume "find_rows img startX maxJ middleI height moduleSize iGen centers
      = Value (Confirmed confirm)"
  then show "\<exists>sc r c cs. FoundPatternCross sc moduleSize
       \<and> HandlePossibleCenter img sc r c moduleSize cs = Value (Confirmed confirm)"
    by (rule find_rows_Confirmed)
next
  assume "j < maxJ" "get img j i = Value True" "FoundPatternCross stateCount moduleSize"
    "HandlePossibleCenter img stateCount i j moduleSize centers = Value (Confirmed confirm)"
  then show "scan_columns img i maxJ moduleSize j 2 stateCount centers
      = Value (Confirmed confirm)"
    by (simp add: scan_columns_check)
next
  assume "burn_off img i maxJ startX = Value j"
    "scan_columns img i maxJ moduleSize j 0 (0, 0, 0) centers = Value (Confirmed confirm)"
  then show "scan_row img startX maxJ moduleSize i centers = Value (Confirmed confirm)"
    by (simp add: scan_row_def)
next
  assume "burn_off img i maxJ startX = Value j"
    "scan_columns img i maxJ moduleSize j 0 (0, 0, 0) centers
      = Value (Unconfirmed (stateCount, centers'))"
    "FoundPatternCross stateCount moduleSize"
    "HandlePossibleCenter img stateCount i maxJ moduleSize centers'
      = Value (Confirmed confirm)"
  then show "scan_row img startX maxJ moduleSize i centers = Value (Confirmed confirm)"
    by (simp add: scan_row_at_end)
next
  assume "iGen < height"
    "scan_row img startX maxJ moduleSize (row_of middleI iGen) centers
      = Value (Confirmed confirm)"
  then show "find_rows img startX maxJ middleI height moduleSize iGen centers
      = Value (Confirmed confirm)"
    by (simp add: find_rows_step)
next
  assume "HandlePossibleCenter img stateCount i j moduleSize centers
      = Value (Unconfirmed centers')"
  then show "\<exists>ext. centers' = centers @ ext"
    by (rule HandlePossibleCenter_extends)
next
  assume "find_rows img startX maxJ middleI height moduleSize iGen (first # later)
      = Value (Unconfirmed centers')"
  from find_rows_extends [OF this] show "\<exists>ext. centers' = first # later @ ext"
    by simp
next
  show "Find img startX startY width height moduleSize =
       (case aggregate (fst (Find_trace img startX startY width height moduleSize)) [] of
          Confirmed combined \<Rightarrow> Value (NoError combined)
        | Unconfirmed recorded \<Rightarrow>
            if snd (Find_trace img startX startY width height moduleSize)
            then (case fst (Find_trace img startX startY width height moduleSize) of
                    [] \<Rightarrow> Value NotFound
                  | earliest # others \<Rightarrow> Value (NoError earliest))
            else OutOfRange)"
    by (rule Find_replay)
next
  assume "fst (Find_trace img startX startY width height moduleSize) = seen @ new # unseen"
    "aggregate seen [] = Unconfirmed seen" "tryConfirm new seen = Confirmed combined"
  then have "aggregate (fst (Find_trace img startX startY width height moduleSize)) []
      = Confirmed combined"
    by (rule aggregate_first_confirmation)
  then show "Find img startX startY width height moduleSize = Value (NoError combined)"
    by (simp add: Find_replay)
next
  assume "snd (Find_trace img startX startY width height moduleSize)"
    and "aggregate (fst (Find_trace img startX startY width height moduleSize)) []
      = Unconfirmed recorded"
  from aggregate_Unconfirmed [OF this(2)]
  show "recorded = fst (Find_trace img startX startY width height moduleSize)" by simp
next
  assume ok: "snd (Find_trace img startX startY width height moduleSize)"
    and agg: "aggregate (fst (Find_trace img startX startY width height moduleSize)) []
      = Unconfirmed recorded"
    and front: "recorded = earliest # others"
  from aggregate_Unconfirmed [OF agg] front
  have "fst (Find_trace img startX startY width height moduleSize) = earliest # others"
    by simp
  with ok agg show "Find img startX startY width height moduleSize = Value (NoError earliest)"
    by (simp add: Find_replay)
next
  show "Find img startX startY width height moduleSize = Value NotFound \<longleftrightarrow>
    snd (Find_trace img startX startY width height moduleSize)
    \<and> fst (Find_trace img startX startY width height moduleSize) = []"
  proof (cases "aggregate (fst (Find_trace img startX startY width height moduleSize)) []")
    case (Confirmed c)
    then have "fst (Find_trace img startX startY width height moduleSize) \<noteq> []"
      by auto
    with Confirmed show ?thesis by (simp add: Find_replay)
  next
    case (Unconfirmed cs)
    then show ?thesis
      by (simp add: Find_replay split: list.splits)
  qed
qed

theorem Find_result_selection_witness:
  "Find grid_bar 0 0 4 4 (3 / 2) = Value (NoError
      \<lparr>centerX = 5 / 2, centerY = 2, estimatedSize = 1, observationCount = 2\<rparr>)
   \<and> Find grid_two 0 0 6 4 (9 / 5) = Value (NoError
      \<lparr>centerX = 5 / 2, centerY = 5 / 2, estimatedSize = 4 / 3, observationCount = 1\<rparr>)
   \<and> Find grid_one 0 0 1 1 1 = Value NotFound
   \<and> Find_trace grid_two 0 0 6 4 (9 / 5) =
        ([\<lparr>centerX = 5 / 2, centerY = 5 / 2, estimatedSize = 4 / 3, observationCount = 1\<rparr>,
          \<lparr>centerX = 4, centerY = 3 / 2, estimatedSize = 5 / 3, observationCount = 1\<rparr>], True)
   \<and> Find_trace grid_one 0 0 1 1 1 = ([], True)"
proof -
  let ?a = "\<lparr>centerX = 5 / 2, centerY = 2, estimatedSize = 1, observationCount = 1\<rparr>"
  let ?p = "\<lparr>centerX = 5 / 2, centerY = 5 / 2, estimatedSize = 4 / 3, observationCount = 1\<rparr>"
  let ?q = "\<lparr>centerX = 4, centerY = 3 / 2, estimatedSize = 5 / 3, observationCount = 1\<rparr>"
  have bar: "find_rows grid_bar 0 (0 + 4) (0 + half 4) 4 (3 / 2) 0 [] = Value (Confirmed
      \<lparr>centerX = 5 / 2, centerY = 2, estimatedSize = 1, observationCount = 2\<rparr>)"
    by code_simp
  have two: "find_rows grid_two 0 (0 + 6) (0 + half 4) 4 (9 / 5) 0 []
      = Value (Unconfirmed (?p # [?q]))"
    by code_simp
  have one: "find_rows grid_one 0 (0 + 1) (0 + half 1) 1 1 0 [] = Value (Unconfirmed [])"
    by code_simp
  have bar_trace: "fst (Find_trace grid_bar 0 0 4 4 (3 / 2)) = [?a] @ ?a # []"
    by code_simp
  have bar_seen: "aggregate [?a] [] = Unconfirmed [?a]"
    by code_simp
  have bar_new: "tryConfirm ?a [?a] = Confirmed
      \<lparr>centerX = 5 / 2, centerY = 2, estimatedSize = 1, observationCount = 2\<rparr>"
    by code_simp
  have two_trace: "Find_trace grid_two 0 0 6 4 (9 / 5) = ([?p, ?q], True)"
    by code_simp
  have two_agg: "aggregate [?p, ?q] [] = Unconfirmed (?p # [?q])"
    by code_simp
  have one_trace: "Find_trace grid_one 0 0 1 1 1 = ([], True)"
    by code_simp
  from bar Find_result_selection [where img = grid_bar and startX = 0 and startY = 0
      and width = 4 and height = 4 and moduleSize = "3 / 2"]
  have "Find grid_bar 0 0 4 4 (3 / 2) = Value (NoError
      \<lparr>centerX = 5 / 2, centerY = 2, estimatedSize = 1, observationCount = 2\<rparr>)"
    by blast
  moreover
  from bar_trace bar_seen bar_new
    Find_result_selection [where img = grid_bar and startX = 0 and startY = 0
      and width = 4 and height = 4 and moduleSize = "3 / 2" and seen = "[?a]" and new = ?a
      and unseen = "[]"]
  have "Find grid_bar 0 0 4 4 (3 / 2) = Value (NoError
      \<lparr>centerX = 5 / 2, centerY = 2, estimatedSize = 1, observationCount = 2\<rparr>)"
    by blast
  moreover from two Find_result_selection [where img = grid_two and startX = 0 and startY = 0
      and width = 6 and height = 4 and moduleSize = "9 / 5"]
  have "Find grid_two 0 0 6 4 (9 / 5) = Value (NoError ?p)"
    by blast
  moreover
  from two_trace two_agg
    Find_result_selection [where img = grid_two and startX = 0 and startY = 0
      and width = 6 and height = 4 and moduleSize = "9 / 5" and recorded = "?p # [?q]"
      and earliest = ?p and others = "[?q]"]
  have "Find grid_two 0 0 6 4 (9 / 5) = Value (NoError ?p)"
    by simp
  moreover from one_trace Find_result_selection [where img = grid_one and startX = 0
      and startY = 0 and width = 1 and height = 1 and moduleSize = 1]
  have "Find grid_one 0 0 1 1 1 = Value NotFound"
    by simp
  ultimately show ?thesis using two_trace one_trace by blast
qed

section \<open>Merging and the candidate list\<close>

text \<open>
  Claim C8. When the new observation matches a stored candidate, \<open>HandlePossibleCenter\<close>
  reports the confirmation with the arithmetic mean of the stored and the new centre
  column, centre row and module size, whatever the stored observation count, and this
  ends the search: the column loop, the check at the row end, the row loop and \<open>Find\<close>
  return it at once. End to end: when an observation of the scan matches a candidate
  recorded from the observations before it, none of which was confirmed, \<open>Find\<close> returns
  the mean of that candidate and the observation, whatever the scan would meet after it.
  The candidate (row 10, column 10, size 8) and the observation (row 10.5, column 9.6,
  size 8.4) match and combine to (row 10.25, column 9.8, size 8.2).
\<close>

theorem HandlePossibleCenter_merge:
  "(CrossCheckVertical img i (trunc (CenterFromEnd (c0, c1, c2) j)) (2 * c1) (c0 + c1 + c2)
        moduleSize = Value (Some centerI) \<longrightarrow>
    possibleCenters = before @ center # after \<longrightarrow>
    (\<forall>p \<in> set before. \<not> aboutEquals p (real_of_int (c0 + c1 + c2) / 3) centerI
        (CenterFromEnd (c0, c1, c2) j)) \<longrightarrow>
    aboutEquals center (real_of_int (c0 + c1 + c2) / 3) centerI
        (CenterFromEnd (c0, c1, c2) j) \<longrightarrow>
    HandlePossibleCenter img (c0, c1, c2) i j moduleSize possibleCenters = Value (Confirmed
      \<lparr>centerX = (centerX center + CenterFromEnd (c0, c1, c2) j) / 2,
       centerY = (centerY center + centerI) / 2,
       estimatedSize = (estimatedSize center + real_of_int (c0 + c1 + c2) / 3) / 2,
       observationCount = observationCount center + 1\<rparr>))
   \<and> (HandlePossibleCenter img (c0, c1, c2) i j moduleSize possibleCenters
          = Value (Confirmed confirm) \<longrightarrow>
        (\<exists>center row. center \<in> set possibleCenters
           \<and> aboutEquals center (real_of_int (c0 + c1 + c2) / 3) row
                 (CenterFromEnd (c0, c1, c2) j)
           \<and> centerX confirm = (centerX center + CenterFromEnd (c0, c1, c2) j) / 2
           \<and> centerY confirm = (centerY center + row) / 2
           \<and> estimatedSize confirm
                 = (estimatedSize center + real_of_int (c0 + c1 + c2) / 3) / 2))
   \<and> (j < maxJ \<longrightarrow> get img j i = Value True \<longrightarrow> FoundPatternCross stateCount moduleSize \<longrightarrow>
        HandlePossibleCenter img stateCount i j moduleSize possibleCenters
          = Value (Confirmed confirm) \<longrightarrow>
        scan_columns img i maxJ moduleSize j 2 stateCount possibleCenters
          = Value (Confirmed confirm))
   \<and> aboutEquals
        \<lparr>centerX = 10, centerY = 10, estimatedSize = 8, observationCount = n\<rparr> (84 / 10)
        (105 / 10) (96 / 10)
   \<and> combineEstimate
        \<lparr>centerX = 10, centerY = 10, estimatedSize = 8, observationCount = n\<rparr> (105 / 10)
        (96 / 10) (84 / 10)
      = \<lparr>centerX = 98 / 10, centerY = 1025 / 100, estimatedSize = 82 / 10,
         observationCount = n + 1\<rparr>
   \<and> (burn_off img i maxJ startX = Value j \<longrightarrow>
        scan_columns img i maxJ moduleSize j 0 (0, 0, 0) possibleCenters
          = Value (Unconfirmed (stateCount, centers)) \<longrightarrow>
        FoundPatternCross stateCount moduleSize \<longrightarrow>
        HandlePossibleCenter img stateCount i maxJ moduleSize centers
          = Value (Confirmed confirm) \<longrightarrow>
        scan_row img startX maxJ moduleSize i possibleCenters = Value (Confirmed confirm))
   \<and> (burn_off img i maxJ startX = Value j \<longrightarrow>
        scan_columns img i maxJ moduleSize j 0 (0, 0, 0) possibleCenters
          = Value (Confirmed confirm) \<longrightarrow>
        scan_row img startX maxJ moduleSize i possibleCenters = Value (Confirmed confirm))
   \<and> (iGen < height \<longrightarrow>
        scan_row img startX maxJ moduleSize (row_of middleI iGen) possibleCenters
          = Value (Confirmed confirm) \<longrightarrow>
        find_rows img startX maxJ middleI height moduleSize iGen possibleCenters
          = Value (Confirmed confirm))
   \<and> (find_rows img startX (startX + width) (startY + half height) height moduleSize 0 []
          = Value (Confirmed confirm) \<longrightarrow>
        Find img startX startY width height moduleSize = Value (NoError confirm))
   \<and> (fst (Find_trace img startX startY width height moduleSize) = seen @ new # unseen \<longrightarrow>
        aggregate seen [] = Unconfirmed seen \<longrightarrow>
        seen = earlier @ stored # newer \<longrightarrow>
        (\<forall>p \<in> set earlier. \<not> aboutEquals p (estimatedSize new) (centerY new)
           (centerX new)) \<longrightarrow>
        aboutEquals stored (estimatedSize new) (centerY new) (centerX new) \<longrightarrow>
        Find img startX startY width height moduleSize = Value (NoError
          \<lparr>centerX = (centerX stored + centerX new) / 2,
           centerY = (centerY stored + centerY new) / 2,
           estimatedSize = (estimatedSize stored + estimatedSize new) / 2,
           observationCount = observationCount stored + 1\<rparr>))"
proof (intro conjI impI)
  assume "CrossCheckVertical img i (trunc (CenterFromEnd (c0, c1, c2) j)) (2 * c1) (c0 + c1 + c2)
        moduleSize = Value (Some centerI)"
    and "possibleCenters = before @ center # after"
    and "\<forall>p \<in> set before. \<not> aboutEquals p (real_of_int (c0 + c1 + c2) / 3) centerI
        (CenterFromEnd (c0, c1, c2) j)"
    and "aboutEquals center (real_of_int (c0 + c1 + c2) / 3) centerI
        (CenterFromEnd (c0, c1, c2) j)"
  then show "HandlePossibleCenter img (c0, c1, c2) i j moduleSize possibleCenters
    = Value (Confirmed
      \<lparr>centerX = (centerX center + CenterFromEnd (c0, c1, c2) j) / 2,
       centerY = (centerY center + centerI) / 2,
       estimatedSize = (estimatedSize center + real_of_int (c0 + c1 + c2) / 3) / 2,
       observationCount = observationCount center + 1\<rparr>)"
    by (simp add: HandlePossibleCenter_cross first_match_found combineEstimate_def)
next
  assume "HandlePossibleCenter img (c0, c1, c2) i j moduleSize possibleCenters
       = Value (Confirmed confirm)"
  from HandlePossibleCenter_Confirmed [OF this] obtain row where
    "first_match possibleCenters (real_of_int (c0 + c1 + c2) / 3) row
       (CenterFromEnd (c0, c1, c2) j) = Some confirm"
    by blast
  from first_match_Some [OF this] obtain before center after where
    "possibleCenters = before @ center # after"
    "aboutEquals center (real_of_int (c0 + c1 + c2) / 3) row (CenterFromEnd (c0, c1, c2) j)"
    "confirm = combineEstimate center row (CenterFromEnd (c0, c1, c2) j)
       (real_of_int (c0 + c1 + c2) / 3)"
    by blast
  then show "\<exists>center row. center \<in> set possibleCenters
           \<and> aboutEquals center (real_of_int (c0 + c1 + c2) / 3) row
                 (CenterFromEnd (c0, c1, c2) j)
           \<and> centerX confirm = (centerX center + CenterFromEnd (c0, c1, c2) j) / 2
           \<and> centerY confirm = (centerY center + row) / 2
           \<and> estimatedSize confirm
                 = (estimatedSize center + real_of_int (c0 + c1 + c2) / 3) / 2"
    by (intro exI [of _ center] exI [of _ row]) (simp add: combineEstimate_def)
next
  assume "j < maxJ" "get img j i = Value True" "FoundPatternCross stateCount moduleSize"
    "HandlePossibleCenter img stateCount i j moduleSize possibleCenters
       = Value (Confirmed confirm)"
  then show "scan_columns img i maxJ moduleSize j 2 stateCount possibleCenters
       = Value (Confirmed confirm)"
    by (simp add: scan_columns_check)
next
  show "aboutEquals
        \<lparr>centerX = 10, centerY = 10, estimatedSize = 8, observationCount = n\<rparr> (84 / 10)
        (105 / 10) (96 / 10)"
    by (simp add: aboutEquals_def)
next
  show "combineEstimate
        \<lparr>centerX = 10, centerY = 10, estimatedSize = 8, observationCount = n\<rparr> (105 / 10)
        (96 / 10) (84 / 10)
      = \<lparr>centerX = 98 / 10, centerY = 1025 / 100, estimatedSize = 82 / 10,
         observationCount = n + 1\<rparr>"
    by (simp add: combineEstimate_def)
next
  assume "burn_off img i maxJ startX = Value j"
    "scan_columns img i maxJ moduleSize j 0 (0, 0, 0) possibleCenters
       = Value (Unconfirmed (stateCount, centers))"
    "FoundPatternCross stateCount moduleSize"
    "HandlePossibleCenter img stateCount i maxJ moduleSize centers = Value (Confirmed confirm)"
  then show "scan_row img startX maxJ moduleSize i possibleCenters = Value (Confirmed confirm)"
    by (simp add: scan_row_at_end)
next
  assume "burn_off img i maxJ startX = Value j"
    "scan_columns img i maxJ moduleSize j 0 (0, 0, 0) possibleCenters
       = Value (Confirmed confirm)"
  then show "scan_row img startX maxJ moduleSize i possibleCenters = Value (Confirmed confirm)"
    by (simp add: scan_row_def)
next
  assume "iGen < height"
    "scan_row img startX maxJ moduleSize (row_of middleI iGen) possibleCenters
       = Value (Confirmed confirm)"
  then show "find_rows img startX maxJ middleI height moduleSize iGen possibleCenters
       = Value (Confirmed confirm)"
    by (simp add: find_rows_step)
next
  assume "find_rows img startX (startX + width) (startY + half height) height moduleSize 0 []
       = Value (Confirmed confirm)"
  then show "Find img startX startY width height moduleSize = Value (NoError confirm)"
    by (simp add: Find_def Let_def)
next
  assume trace: "fst (Find_trace img startX startY width height moduleSize)
       = seen @ new # unseen"
    and before: "aggregate seen [] = Unconfirmed seen"
    and list: "seen = earlier @ stored # newer"
    and none: "\<forall>p \<in> set earlier. \<not> aboutEquals p (estimatedSize new) (centerY new)
       (centerX new)"
    and match: "aboutEquals stored (estimatedSize new) (centerY new) (centerX new)"
  from first_match_found [OF list none match]
  have "tryConfirm new seen = Confirmed
      (combineEstimate stored (centerY new) (centerX new) (estimatedSize new))"
    by (simp add: tryConfirm_def)
  from aggregate_first_confirmation [OF trace before this]
  show "Find img startX startY width height moduleSize = Value (NoError
          \<lparr>centerX = (centerX stored + centerX new) / 2,
           centerY = (centerY stored + centerY new) / 2,
           estimatedSize = (estimatedSize stored + estimatedSize new) / 2,
           observationCount = observationCount stored + 1\<rparr>)"
    by (simp add: Find_replay combineEstimate_def)
qed

theorem HandlePossibleCenter_merge_witness:
  "HandlePossibleCenter grid_bar (1, 1, 1) 1 4 (3 / 2)
     [\<lparr>centerX = 5 / 2, centerY = 2, estimatedSize = 1, observationCount = 1\<rparr>]
   = Value (Confirmed
       \<lparr>centerX = 5 / 2, centerY = 2, estimatedSize = 1, observationCount = 2\<rparr>)
   \<and> fst (Find_trace grid_three 0 0 6 5 (7 / 5)) =
       [\<lparr>centerX = 5 / 2, centerY = 2, estimatedSize = 1, observationCount = 1\<rparr>,
        \<lparr>centerX = 9 / 2, centerY = 5 / 2, estimatedSize = 1, observationCount = 1\<rparr>,
        \<lparr>centerX = 7 / 2, centerY = 7 / 2, estimatedSize = 4 / 3, observationCount = 1\<rparr>]
   \<and> Find grid_three 0 0 6 5 (7 / 5) = Value (NoError
       \<lparr>centerX = 4, centerY = 3, estimatedSize = 7 / 6, observationCount = 2\<rparr>)"
proof -
  let ?a = "\<lparr>centerX = 5 / 2, centerY = 2, estimatedSize = 1, observationCount = 1\<rparr>"
  let ?q = "\<lparr>centerX = 9 / 2, centerY = 5 / 2, estimatedSize = 1, observationCount = 1\<rparr>"
  let ?r = "\<lparr>centerX = 7 / 2, centerY = 7 / 2, estimatedSize = 4 / 3, observationCount = 1\<rparr>"
  have cross: "CrossCheckVertical grid_bar 1 (trunc (CenterFromEnd (1, 1, 1) 4)) (2 * 1)
      (1 + 1 + 1) (3 / 2) = Value (Some 2)"
    by code_simp
  have list: "[?a] = [] @ ?a # []" by simp
  have none: "\<forall>p \<in> set []. \<not> aboutEquals p (real_of_int (1 + 1 + 1) / 3) 2
      (CenterFromEnd (1, 1, 1) 4)"
    by simp
  have match: "aboutEquals ?a (real_of_int (1 + 1 + 1) / 3) 2 (CenterFromEnd (1, 1, 1) 4)"
    by (simp add: aboutEquals_def CenterFromEnd_def)
  from HandlePossibleCenter_merge [where img = grid_bar and i = 1 and j = 4 and ?c0.0 = 1
      and ?c1.0 = 1 and ?c2.0 = 1 and moduleSize = "3 / 2" and centerI = 2
      and possibleCenters = "[?a]" and before = "[]" and center = ?a and after = "[]"]
    cross list none match
  have "HandlePossibleCenter grid_bar (1, 1, 1) 1 4 (3 / 2) [?a] = Value (Confirmed
      \<lparr>centerX = (centerX ?a + CenterFromEnd (1, 1, 1) 4) / 2,
       centerY = (centerY ?a + 2) / 2,
       estimatedSize = (estimatedSize ?a + real_of_int (1 + 1 + 1) / 3) / 2,
       observationCount = observationCount ?a + 1\<rparr>)"
    by blast
  then have call: "HandlePossibleCenter grid_bar (1, 1, 1) 1 4 (3 / 2) [?a] = Value (Confirmed
      \<lparr>centerX = 5 / 2, centerY = 2, estimatedSize = 1, observationCount = 2\<rparr>)"
    by (simp add: CenterFromEnd_def)
  have trace: "fst (Find_trace grid_three 0 0 6 5 (7 / 5)) = [?a, ?q] @ ?r # []"
    by code_simp
  have seen: "aggregate [?a, ?q] [] = Unconfirmed [?a, ?q]"
    by code_simp
  have stored: "[?a, ?q] = [?a] @ ?q # []" by simp
  have none': "\<forall>p \<in> set [?a]. \<not> aboutEquals p (estimatedSize ?r) (centerY ?r) (centerX ?r)"
    by (simp add: aboutEquals_def)
  have match': "aboutEquals ?q (estimatedSize ?r) (centerY ?r) (centerX ?r)"
    by (simp add: aboutEquals_def)
  from HandlePossibleCenter_merge [where img = grid_three and startX = 0 and startY = 0
      and width = 6 and height = 5 and moduleSize = "7 / 5" and seen = "[?a, ?q]" and new = ?r
      and unseen = "[]" and earlier = "[?a]" and stored = ?q and newer = "[]"]
    trace seen stored none' match'
  have "Find grid_three 0 0 6 5 (7 / 5) = Value (NoError
      \<lparr>centerX = (centerX ?q + centerX ?r) / 2,
       centerY = (centerY ?q + centerY ?r) / 2,
       estimatedSize = (estimatedSize ?q + estimatedSize ?r) / 2,
       observationCount = observationCount ?q + 1\<rparr>)"
    by blast
  then have "Find grid_three 0 0 6 5 (7 / 5) = Value (NoError
      \<lparr>centerX = 4, centerY = 3, estimatedSize = 7 / 6, observationCount = 2\<rparr>)"
    by simp
  with call trace show ?thesis by simp
qed

section \<open>No stored candidate matches a later one\<close>

lemma unmatched_snoc:
  "unmatched (centers @ [new]) \<longleftrightarrow>
     unmatched centers \<and> (\<forall>center \<in> set centers. \<not> matches center new)"
  by (auto simp: unmatched_def sorted_wrt_append)

lemma matches_new:
  "matches center (newAlignmentPattern posX posY moduleSize)
     \<longleftrightarrow> aboutEquals center moduleSize posY posX"
  by (simp add: matches_def newAlignmentPattern_def)

lemma HandlePossibleCenter_unmatched:
  assumes "HandlePossibleCenter img stateCount i j moduleSize possibleCenters
             = Value (Unconfirmed centers')"
    and "unmatched possibleCenters"
  shows "unmatched centers'"
proof -
  obtain c0 c1 c2 where sc: "stateCount = (c0, c1, c2)" by (cases stateCount) auto
  from HandlePossibleCenter_Unconfirmed [OF assms(1) [unfolded sc]] assms(2)
  show ?thesis by (auto simp: unmatched_snoc matches_new)
qed

text \<open>
  Claim C9, as stated, fails when the proximity predicate is read from the side of the
  later entry. On the grid \<open>grid_two\<close> the search records two candidates; the first one
  does not match the second one, which is why both are stored, but the second one, whose
  module size and so whose tolerance is larger, matches the first one.
\<close>

theorem Find_stores_matching_pair:
  "find_rows grid_two 0 6 2 4 (9 / 5) 0 [] = Value (Unconfirmed
     [\<lparr>centerX = 5 / 2, centerY = 5 / 2, estimatedSize = 4 / 3, observationCount = 1\<rparr>,
      \<lparr>centerX = 4, centerY = 3 / 2, estimatedSize = 5 / 3, observationCount = 1\<rparr>])
   \<and> aboutEquals
        \<lparr>centerX = 4, centerY = 3 / 2, estimatedSize = 5 / 3, observationCount = 1\<rparr>
        (4 / 3) (5 / 2) (5 / 2)
   \<and> \<not> aboutEquals
        \<lparr>centerX = 5 / 2, centerY = 5 / 2, estimatedSize = 4 / 3, observationCount = 1\<rparr>
        (5 / 3) (3 / 2) 4"
proof -
  have "find_rows grid_two 0 6 2 4 (9 / 5) 0 [] = Value (Unconfirmed
     [\<lparr>centerX = 5 / 2, centerY = 5 / 2, estimatedSize = 4 / 3, observationCount = 1\<rparr>,
      \<lparr>centerX = 4, centerY = 3 / 2, estimatedSize = 5 / 3, observationCount = 1\<rparr>])"
    by code_simp
  then show ?thesis by (simp add: aboutEquals_def)
qed

text \<open>
  Claim C9, amended. Throughout an invocation of \<open>Find\<close> no stored candidate matches,
  as the receiver of the proximity predicate, a candidate stored after it: the list starts
  empty, every call of \<open>HandlePossibleCenter\<close> that does not confirm keeps this property,
  and so does the whole row loop. A new observation is appended only when no stored
  candidate matches it, and when a stored candidate matches it the call confirms and the
  list is left as it is.
\<close>

theorem candidates_unmatched:
  "unmatched []
   \<and> (unmatched possibleCenters \<longrightarrow>
        HandlePossibleCenter img stateCount i j moduleSize possibleCenters
          = Value (Unconfirmed centers') \<longrightarrow> unmatched centers')
   \<and> (unmatched possibleCenters \<longrightarrow>
        find_rows img startX maxJ middleI height moduleSize iGen possibleCenters
          = Value (Unconfirmed centers') \<longrightarrow> unmatched centers')
   \<and> (find_rows img startX maxJ middleI height moduleSize 0 []
          = Value (Unconfirmed centers') \<longrightarrow> unmatched centers')
   \<and> (HandlePossibleCenter img (c0, c1, c2) i j moduleSize possibleCenters
          = Value (Unconfirmed centers') \<longrightarrow> centers' \<noteq> possibleCenters \<longrightarrow>
        (\<exists>new. centers' = possibleCenters @ [new]
           \<and> (\<forall>center \<in> set possibleCenters. \<not> matches center new)))
   \<and> (CrossCheckVertical img i (trunc (CenterFromEnd (c0, c1, c2) j)) (2 * c1) (c0 + c1 + c2)
          moduleSize = Value (Some centerI) \<longrightarrow>
        (\<exists>center \<in> set possibleCenters. aboutEquals center (real_of_int (c0 + c1 + c2) / 3)
           centerI (CenterFromEnd (c0, c1, c2) j)) \<longrightarrow>
        (\<exists>confirm. HandlePossibleCenter img (c0, c1, c2) i j moduleSize possibleCenters
           = Value (Confirmed confirm)))"
proof (intro conjI impI)
  show "unmatched []" by (simp add: unmatched_def)
next
  assume "unmatched possibleCenters"
    "HandlePossibleCenter img stateCount i j moduleSize possibleCenters
       = Value (Unconfirmed centers')"
  then show "unmatched centers'" by (simp add: HandlePossibleCenter_unmatched)
next
  assume u: "unmatched possibleCenters"
    and r: "find_rows img startX maxJ middleI height moduleSize iGen possibleCenters
       = Value (Unconfirmed centers')"
  show "unmatched centers'"
    by (rule find_rows_centers [where P = unmatched, OF r u])
       (rule HandlePossibleCenter_unmatched)
next
  assume r: "find_rows img startX maxJ middleI height moduleSize 0 []
       = Value (Unconfirmed centers')"
  have u: "unmatched []" by (simp add: unmatched_def)
  show "unmatched centers'"
    by (rule find_rows_centers [where P = unmatched, OF r u])
       (rule HandlePossibleCenter_unmatched)
next
  assume "HandlePossibleCenter img (c0, c1, c2) i j moduleSize possibleCenters
       = Value (Unconfirmed centers')" "centers' \<noteq> possibleCenters"
  with HandlePossibleCenter_Unconfirmed [of img c0 c1 c2 i j moduleSize possibleCenters centers']
  show "\<exists>new. centers' = possibleCenters @ [new]
           \<and> (\<forall>center \<in> set possibleCenters. \<not> matches center new)"
    by (auto simp: matches_new)
next
  assume cross: "CrossCheckVertical img i (trunc (CenterFromEnd (c0, c1, c2) j)) (2 * c1)
      (c0 + c1 + c2) moduleSize = Value (Some centerI)"
    and ex: "\<exists>center \<in> set possibleCenters. aboutEquals center
      (real_of_int (c0 + c1 + c2) / 3) centerI (CenterFromEnd (c0, c1, c2) j)"
  from ex have "first_match possibleCenters (real_of_int (c0 + c1 + c2) / 3) centerI
      (CenterFromEnd (c0, c1, c2) j) \<noteq> None"
    by (simp add: first_match_None)
  with cross show "\<exists>confirm. HandlePossibleCenter img (c0, c1, c2) i j moduleSize
      possibleCenters = Value (Confirmed confirm)"
    by (auto simp: HandlePossibleCenter_cross)
qed

theorem candidates_unmatched_witness:
  "unmatched
     [\<lparr>centerX = 5 / 2, centerY = 5 / 2, estimatedSize = 4 / 3, observationCount = 1\<rparr>,
      \<lparr>centerX = 4, centerY = 3 / 2, estimatedSize = 5 / 3, observationCount = 1\<rparr>]
   \<and> unmatched
     [\<lparr>centerX = 5 / 2, centerY = 5 / 2, estimatedSize = 4 / 3, observationCount = 1\<rparr>]"
proof -
  let ?a = "\<lparr>centerX = 5 / 2, centerY = 5 / 2, estimatedSize = 4 / 3, observationCount = 1\<rparr>"
  let ?b = "\<lparr>centerX = 4, centerY = 3 / 2, estimatedSize = 5 / 3, observationCount = 1\<rparr>"
  have rows: "find_rows grid_two 0 6 2 4 (9 / 5) 0 [] = Value (Unconfirmed [?a, ?b])"
    by code_simp
  have call: "HandlePossibleCenter grid_two (1, 1, 2) 2 5 (9 / 5) [] = Value (Unconfirmed [?a])"
    by code_simp
  from candidates_unmatched [where img = grid_two and startX = 0 and maxJ = 6 and middleI = 2
      and height = 4 and moduleSize = "9 / 5" and centers' = "[?a, ?b]"] rows
  have "unmatched [?a, ?b]" by blast
  moreover
  from candidates_unmatched [where img = grid_two and stateCount = "(1, 1, 2)" and i = 2
      and j = 5 and moduleSize = "9 / 5" and possibleCenters = "[]" and centers' = "[?a]"] call
  have "unmatched [?a]" by blast
  ultimately show ?thesis by blast
qed

section \<open>The counters are light, dark, light runs\<close>



section \<open>What the three counters count\<close>




end
